theory Spec2Isabelle
  imports Complex_Main "HOL-Library.Sublist"
begin

section \<open>JavaScript strings\<close>

text \<open>
  Strings of the program are modelled as \<^typ>\<open>string\<close>: lists of 8-bit characters, read
  as the Latin-1 range of JavaScript's code units. The string methods the engine uses
  are written out below with the behaviour they have on that range.
\<close>

definition isWhiteSpace :: "char \<Rightarrow> bool" where
  \<comment> \<open>the characters that \<open>trim\<close>, \<open>trimStart\<close> and the regex class \<open>\s\<close> remove:
      TAB, LF, VT, FF, CR, SPACE, NBSP\<close>
  "isWhiteSpace c \<longleftrightarrow>
     c \<in> set [CHR 0x09, CHR 0x0A, CHR 0x0B, CHR 0x0C, CHR 0x0D, CHR 0x20, CHR 0xA0]"

definition trimStart :: "string \<Rightarrow> string" where
  "trimStart s = dropWhile isWhiteSpace s"

definition trimEnd :: "string \<Rightarrow> string" where
  "trimEnd s = rev (dropWhile isWhiteSpace (rev s))"

definition trim :: "string \<Rightarrow> string" where
  "trim s = trimEnd (trimStart s)"

fun startsWith :: "string \<Rightarrow> string \<Rightarrow> bool" where
  "startsWith s [] = True"
| "startsWith [] (p # ps) = False"
| "startsWith (c # cs) (p # ps) = (c = p \<and> startsWith cs ps)"

fun indexOf :: "string \<Rightarrow> string \<Rightarrow> nat option" where
  \<comment> \<open>\<open>None\<close> is JavaScript's \<open>-1\<close>\<close>
  "indexOf [] p = (if p = [] then Some 0 else None)"
| "indexOf (c # cs) p =
     (if startsWith (c # cs) p then Some 0 else map_option Suc (indexOf cs p))"

definition includes_str :: "string \<Rightarrow> string \<Rightarrow> bool" where
  "includes_str s p = (indexOf s p \<noteq> None)"

definition substring :: "string \<Rightarrow> nat \<Rightarrow> string" where
  "substring s n = drop n s"

definition toLowerChar :: "char \<Rightarrow> char" where
  \<comment> \<open>\<open>A\<close>..\<open>Z\<close> and the Latin-1 capitals \<open>0xC0\<close>..\<open>0xDE\<close> (except the
      multiplication sign \<open>0xD7\<close>) move up by 32; everything else is unchanged\<close>
  "toLowerChar c =
     (let n = of_char c :: nat in
      if (65 \<le> n \<and> n \<le> 90) \<or> (192 \<le> n \<and> n \<le> 222 \<and> n \<noteq> 215)
      then char_of (n + 32) else c)"

definition toLowerCase :: "string \<Rightarrow> string" where
  "toLowerCase s = map toLowerChar s"

section \<open>The streaming decoder of \<open>fetchAnalysisStream\<close>\<close>

text \<open>
  One parsed frame of the event stream: a content delta (the empty string when the frame
  carries none), a frame whose \<open>finish_reason\<close> is \<open>length\<close>, or a frame whose JSON
  cannot be parsed (the source logs a warning and goes on).
\<close>

datatype chunk = Delta string | FinishLength | Unparsable

datatype stream_event = EvDelta string | EvError string

datatype parsingState = initial | skipping_think | streaming

record decoder =
  parsingState :: parsingState
  accumulatedContent :: string

definition decoder0 :: decoder where
  "decoder0 = \<lparr>parsingState = initial, accumulatedContent = []\<rparr>"

definition afterThink :: "decoder \<Rightarrow> string \<Rightarrow> decoder \<times> stream_event list" where
  \<comment> \<open>the search for the closing marker in the accumulated text \<open>acc\<close>, shared by the
      \<open>initial\<close> and \<open>skipping_think\<close> branches\<close>
  "afterThink d acc =
     (case indexOf acc ''</think>'' of
        None \<Rightarrow> (d\<lparr>parsingState := skipping_think, accumulatedContent := acc\<rparr>, [])
      | Some endThinkTagIndex \<Rightarrow>
          (let remainingContent = substring acc (endThinkTagIndex + length ''</think>'')
           in (d\<lparr>parsingState := streaming, accumulatedContent := []\<rparr>,
               if remainingContent \<noteq> [] then [EvDelta (trimStart remainingContent)] else [])))"

definition feedDelta :: "decoder \<Rightarrow> string \<Rightarrow> decoder \<times> stream_event list" where
  "feedDelta d delta =
     (if delta = [] then (d, [])
      else case parsingState d of
        initial \<Rightarrow>
          (let acc = accumulatedContent d @ delta in
           if length (trim acc) > 0 then
             (if startsWith (trim acc) ''<think>'' then afterThink d acc
              else (d\<lparr>parsingState := streaming, accumulatedContent := []\<rparr>, [EvDelta acc]))
           else (d\<lparr>accumulatedContent := acc\<rparr>, []))
      | skipping_think \<Rightarrow> afterThink d (accumulatedContent d @ delta)
      | streaming \<Rightarrow> (d, [EvDelta delta]))"

fun decodeStream :: "decoder \<Rightarrow> chunk list \<Rightarrow> stream_event list" where
  "decodeStream d [] = []"
| "decodeStream d (FinishLength # cs) = [EvError ''Response was truncated due to token limit.'']"
| "decodeStream d (Unparsable # cs) = decodeStream d cs"
| "decodeStream d (Delta delta # cs) =
     (case feedDelta d delta of (d', out) \<Rightarrow> out @ decodeStream d' cs)"

fun visibleText :: "stream_event list \<Rightarrow> string" where
  \<comment> \<open>the concatenation of the emitted deltas\<close>
  "visibleText [] = []"
| "visibleText (EvDelta s # es) = s @ visibleText es"
| "visibleText (EvError e # es) = visibleText es"

section \<open>JavaScript numbers\<close>

text \<open>
  A number of the program is NaN, an infinity or a finite value. The engine only compares
  numbers, and IEEE comparison of two finite doubles is the comparison of the rationals
  they denote, so finite values are carried as \<^typ>\<open>rat\<close>. Conversion from text
  (\<open>parseFloat\<close>) rounds and is taken from the environment.
\<close>

datatype jsnum = NaN | NegInf | Fin rat | PosInf

fun js_lt :: "jsnum \<Rightarrow> jsnum \<Rightarrow> bool" where
  "js_lt NaN b = False"
| "js_lt a NaN = False"
| "js_lt PosInf b = False"
| "js_lt a NegInf = False"
| "js_lt NegInf b = True"
| "js_lt a PosInf = True"
| "js_lt (Fin x) (Fin y) = (x < y)"

definition js_gt :: "jsnum \<Rightarrow> jsnum \<Rightarrow> bool" where
  "js_gt a b = js_lt b a"

section \<open>Data model (\<open>types.ts\<close>)\<close>

datatype ResultType = Text | BoundingBox | Score | Number | YesNo | Category | JSON

datatype yesno = yes | no

datatype operator = above | below

datatype regionType = region_point | region_bbox

record Prompt =
  pid :: string
  ptext :: string
  ptype :: ResultType
  scoreRange :: "(jsnum \<times> jsnum) option"
  categories :: "string list option"
  jsonSchema :: "string option"
  parentId :: "string option"
  condition :: "yesno option"
  scoreConditionOperator :: "operator option"
  scoreConditionValue :: "jsnum option"
  regionType :: "regionType option"
  regionCoords :: "jsnum list option"

record BoundingBox =
  box :: "jsnum list"
  label :: string

datatype childData = CNull | CStr string | CNum jsnum

record BboxChildResult =
  parentBox :: BoundingBox
  resultData :: childData

datatype AnalysisStatus = idle | loading | success | error

text \<open>
  The \<open>data\<close> of a result: \<open>null\<close>, a string, a number, an array of detections, an array
  of per-object child results, or any other value \<open>JSON.parse\<close> returned. Of such a value
  the engine reads the \<open>length\<close> property only, so it is kept as its source text together
  with whether its \<open>length\<close> is greater than \<open>0\<close>.
\<close>

datatype resultData =
  Null | Str string | Num jsnum | Boxes "BoundingBox list"
  | ChildResults "BboxChildResult list" | Json string bool

text \<open>
  \<open>conversationHistory\<close>, \<open>requestPayload\<close> and \<open>rawResponse\<close> are stored for display and
  for follow-up questions only; no decision of the engine reads them, and they are left
  out of the record.
\<close>

record AnalysisResult =
  promptId :: string
  status :: AnalysisStatus
  data :: resultData
  error_text :: "string option"

section \<open>The environment\<close>

text \<open>
  What the program does not compute itself: the model endpoint, the image reader and two
  built-ins. A request is identified by what determines its body: the prompt, the
  detected object for a per-object call, and the encoded image. The endpoint may answer
  the same request differently each time, so it also receives the number of requests
  issued before.
\<close>

datatype request =
  StreamReq Prompt string | SingleReq Prompt string | ChildReq Prompt BoundingBox string

text \<open>
  A thrown value, as the \<open>catch\<close> blocks read it: its \<open>name\<close> and its \<open>message\<close>, each
  \<open>undefined\<close> (\<open>None\<close>) when the value has no such property, as for a thrown string.
\<close>

record jserror =
  name :: "string option"
  message :: "string option"

text \<open>
  The outcome of a non-streaming \<open>fetch\<close>: a rejection or any other exception raised
  while reading the body (\<open>JRejected\<close>), a response that is not ok with its status
  (\<open>JStatus\<close>), or a body with whether \<open>finish_reason\<close> is \<open>length\<close> and the message
  content. For a streaming request the body is the list of its frames.
\<close>

datatype json_response = JRejected jserror | JStatus nat | JBody bool string

datatype stream_response = SRejected jserror | SStatus nat | SBody "chunk list"

record env =
  fetchJson :: "nat \<Rightarrow> request \<Rightarrow> json_response"
  fetchStream :: "nat \<Rightarrow> request \<Rightarrow> stream_response"
  fileToBase64 :: "string \<Rightarrow> string"
  parseFloat :: "string \<Rightarrow> jsnum"
  JSON_parse :: "string \<Rightarrow> resultData option"

definition Error :: "string \<Rightarrow> jserror" where
  \<comment> \<open>\<open>new Error(msg)\<close>\<close>
  "Error msg = \<lparr>name = Some ''Error'', message = Some msg\<rparr>"

definition templateText :: "string option \<Rightarrow> string" where
  \<comment> \<open>a property value inside a template literal\<close>
  "templateText x = (case x of None \<Rightarrow> ''undefined'' | Some s \<Rightarrow> s)"

fun showNat :: "nat \<Rightarrow> string" where
  "showNat n =
     (if n < 10 then [char_of (48 + n)] else showNat (n div 10) @ [char_of (48 + n mod 10)])"

declare showNat.simps [simp del]

section \<open>Response coercion (\<open>services/api.ts\<close>)\<close>

definition stripThinking :: "string \<Rightarrow> string" where
  \<comment> \<open>removes the first match of \<open><think>[\s\S]*?</think>[\s\n]*\<close>, then trims: the match
      starts at the leftmost opening marker and ends after the first closing marker behind
      it and the white space that follows\<close>
  "stripThinking rawContent =
     trim (case indexOf rawContent ''<think>'' of
             None \<Rightarrow> rawContent
           | Some i \<Rightarrow>
               (case indexOf (drop (i + 7) rawContent) ''</think>'' of
                  None \<Rightarrow> rawContent
                | Some j \<Rightarrow> take i rawContent @ trimStart (drop (i + 7 + j + 8) rawContent)))"

definition isDigit :: "char \<Rightarrow> bool" where
  "isDigit c \<longleftrightarrow> 48 \<le> (of_char c :: nat) \<and> (of_char c :: nat) \<le> 57"

definition matchNumeralAt :: "string \<Rightarrow> string option" where
  \<comment> \<open>\<open>-?\d+(\.\d+)?\<close> matched at the head of the text\<close>
  "matchNumeralAt s =
     (let sign = (if startsWith s ''-'' then ''-'' else []);
          r = drop (length sign) s;
          ds = takeWhile isDigit r;
          r' = dropWhile isDigit r
      in if ds = [] then None
         else case r' of
           c # r'' \<Rightarrow>
             (if c = CHR ''.'' \<and> takeWhile isDigit r'' \<noteq> []
              then Some (sign @ ds @ ''.'' @ takeWhile isDigit r'')
              else Some (sign @ ds))
         | [] \<Rightarrow> Some (sign @ ds))"

fun matchNumeral :: "string \<Rightarrow> string option" where
  \<comment> \<open>\<open>content.match(/-?\d+(\.\d+)?/)\<close>: the leftmost match\<close>
  "matchNumeral [] = None"
| "matchNumeral (c # cs) =
     (case matchNumeralAt (c # cs) of Some m \<Rightarrow> Some m | None \<Rightarrow> matchNumeral cs)"

function stripFences :: "string \<Rightarrow> string" where
  \<comment> \<open>\<open>replace(/```json\n?|```/g, '')\<close>\<close>
  "stripFences [] = []"
| "stripFences (c # cs) =
     (if startsWith (c # cs) ''```json'' then
        (if startsWith (drop 7 (c # cs)) [CHR 0x0A] then stripFences (drop 8 (c # cs))
         else stripFences (drop 7 (c # cs)))
      else if startsWith (c # cs) ''```'' then stripFences (drop 3 (c # cs))
      else c # stripFences cs)"
  by pat_completeness auto
termination
  by (relation "measure length") auto

definition coerceNumber :: "env \<Rightarrow> string \<Rightarrow> jsnum" where
  \<comment> \<open>\<open>scoreMatch ? parseFloat(scoreMatch[0]) : NaN\<close>\<close>
  "coerceNumber E content =
     (case matchNumeral content of Some m \<Rightarrow> parseFloat E m | None \<Rightarrow> NaN)"

definition typeName :: "ResultType \<Rightarrow> string" where
  "typeName t = (case t of Text \<Rightarrow> ''text'' | BoundingBox \<Rightarrow> ''bbox'' | Score \<Rightarrow> ''score''
     | Number \<Rightarrow> ''number'' | YesNo \<Rightarrow> ''yes/no'' | Category \<Rightarrow> ''category'' | JSON \<Rightarrow> ''json'')"

definition fetchAnalysis_settle :: "env \<Rightarrow> Prompt \<Rightarrow> json_response \<Rightarrow> jserror + resultData" where
  \<comment> \<open>\<open>fetchAnalysis\<close> from the point where its \<open>fetch\<close> settles; \<open>Inl\<close> is the exception
      it throws\<close>
  "fetchAnalysis_settle E prompt response =
     (case response of
        JRejected e \<Rightarrow> Inl e
      | JStatus n \<Rightarrow> Inl (Error (''API request failed with status '' @ showNat n))
      | JBody truncated raw \<Rightarrow>
          if truncated then Inl (Error ''Response was truncated due to token limit.'')
          else
            (let content = stripThinking raw in
             if ptype prompt = BoundingBox \<or> ptype prompt = JSON then
               (case JSON_parse E (trim (stripFences content)) of
                  Some parsedData \<Rightarrow> Inr parsedData
                | None \<Rightarrow>
                    Inl (Error (''Failed to parse JSON for '' @ typeName (ptype prompt) @ ''.'')))
             else if ptype prompt = Score \<or> ptype prompt = Number then
               Inr (Num (coerceNumber E content))
             else Inr (Str content)))"

definition fetchAnalysis :: "env \<Rightarrow> nat \<Rightarrow> Prompt \<Rightarrow> string \<Rightarrow> jserror + resultData" where
  "fetchAnalysis E n prompt imageBase64 =
     fetchAnalysis_settle E prompt (fetchJson E n (SingleReq prompt imageBase64))"

definition fetchBboxChildAnalysis ::
  "env \<Rightarrow> nat \<Rightarrow> Prompt \<Rightarrow> BoundingBox \<Rightarrow> string \<Rightarrow> BboxChildResult" where
  \<comment> \<open>every exception is caught and becomes the object's own result; \<open>finish_reason\<close> is
      not looked at here\<close>
  "fetchBboxChildAnalysis E n prompt bbox imageBase64 =
     (case fetchJson E n (ChildReq prompt bbox imageBase64) of
        JRejected e \<Rightarrow>
          \<lparr>parentBox = bbox, resultData = CStr (''Error: '' @ templateText (message e))\<rparr>
      | JStatus k \<Rightarrow>
          \<lparr>parentBox = bbox,
           resultData =
             CStr (''Error: '' @ templateText (message (Error (''API failed: '' @ showNat k))))\<rparr>
      | JBody truncated raw \<Rightarrow>
          (let content = stripThinking raw in
           if ptype prompt = Score \<or> ptype prompt = Number
           then \<lparr>parentBox = bbox, resultData = CNum (coerceNumber E content)\<rparr>
           else \<lparr>parentBox = bbox, resultData = CStr content\<rparr>))"

section \<open>The store (\<open>store.ts\<close>)\<close>

text \<open>
  The part of the application state the engine reads and writes. \<open>abortControllers\<close>
  maps a key to a controller, named by a number; \<open>aborted\<close> lists the controllers whose
  \<open>abort\<close> has been called and \<open>controllers\<close> counts the ones created. \<open>requests\<close> is
  not a field of the source: it records, in order, every request sent to the endpoint.
  The progress counters and the set of running prompts only feed the display and are
  left out.
\<close>

record state =
  prompts :: "Prompt list"
  selectedImageId :: "string option"
  imageBase64s :: "string \<rightharpoonup> string"
  results :: "string \<rightharpoonup> (string \<rightharpoonup> AnalysisResult list)"
  overlayVisibility :: "string \<rightharpoonup> (string \<rightharpoonup> bool)"
  abortControllers :: "string \<rightharpoonup> nat"
  aborted :: "nat list"
  controllers :: nat
  requests :: "request list"

definition truthy :: "string option \<Rightarrow> bool" where
  \<comment> \<open>an optional string used as a condition: neither \<open>undefined\<close>/\<open>null\<close> nor empty\<close>
  "truthy x = (case x of None \<Rightarrow> False | Some s \<Rightarrow> s \<noteq> [])"

definition imageResults :: "state \<Rightarrow> string \<Rightarrow> (string \<rightharpoonup> AnalysisResult list)" where
  \<comment> \<open>\<open>results[imageId] || {}\<close>\<close>
  "imageResults st imageId = (case results st imageId of None \<Rightarrow> Map.empty | Some m \<Rightarrow> m)"

definition historyOf :: "state \<Rightarrow> string \<Rightarrow> string \<Rightarrow> AnalysisResult list" where
  \<comment> \<open>\<open>results[imageId]?.[promptId] || []\<close>\<close>
  "historyOf st imageId i = (case imageResults st imageId i of None \<Rightarrow> [] | Some h \<Rightarrow> h)"

definition isPending :: "state \<Rightarrow> string \<Rightarrow> string \<Rightarrow> bool" where
  \<comment> \<open>\<open>!currentImageResults[id] || currentImageResults[id].length === 0\<close>\<close>
  "isPending st imageId i = (historyOf st imageId i = [])"

definition setHistory :: "string \<Rightarrow> string \<Rightarrow> AnalysisResult list \<Rightarrow> state \<Rightarrow> state" where
  "setHistory imageId i h st =
     st\<lparr>results := (results st)(imageId \<mapsto> (imageResults st imageId)(i \<mapsto> h))\<rparr>"

definition updateResultHistory ::
  "string \<Rightarrow> string \<Rightarrow> (AnalysisResult list \<Rightarrow> AnalysisResult list) \<Rightarrow> state \<Rightarrow> state" where
  "updateResultHistory imageId i updater st = setHistory imageId i (updater (historyOf st imageId i)) st"

definition getImageBase64 :: "env \<Rightarrow> state \<Rightarrow> string \<Rightarrow> string" where
  \<comment> \<open>\<open>imageBase64s[imageId] || await fileToBase64(file)\<close>\<close>
  "getImageBase64 E st imageId =
     (case imageBase64s st imageId of
        Some b \<Rightarrow> if b \<noteq> [] then b else fileToBase64 E imageId
      | None \<Rightarrow> fileToBase64 E imageId)"

definition abortKey :: "string \<Rightarrow> Prompt \<Rightarrow> string" where
  "abortKey imageId prompt = imageId @ ''-'' @ pid prompt"

subsection \<open>\<open>runSinglePrompt\<close>\<close>

text \<open>
  \<open>runSinglePrompt\<close> as the engine calls it, without a follow-up question. It is written
  in two parts, split where the source awaits the endpoint: \<open>runSinglePrompt_begin\<close> runs
  up to the request, and \<open>runSinglePrompt_stream\<close> (Text prompts) or
  \<open>runSinglePrompt_single\<close> (all other types) runs from the endpoint's answer to the end,
  with the \<open>catch\<close> and \<open>finally\<close> blocks. While a Text answer streams in, the source
  also writes the partial text into the \<open>data\<close> of the latest entry; the last update
  overwrites that field (or the \<open>catch\<close> block replaces the entry), so the model writes
  the entry once, when the stream has ended.
\<close>

definition runSinglePrompt_begin :: "env \<Rightarrow> Prompt \<Rightarrow> string \<Rightarrow> state \<Rightarrow> state \<times> string" where
  "runSinglePrompt_begin E prompt imageId st =
     (let key = abortKey imageId prompt;
          st1 = (case abortControllers st key of
                   Some c \<Rightarrow> st\<lparr>aborted := aborted st @ [c]\<rparr>
                 | None \<Rightarrow> st);
          controller = controllers st1;
          st2 = st1\<lparr>abortControllers := (abortControllers st1)(key \<mapsto> controller),
                    controllers := Suc controller\<rparr>;
          imageBase64 = getImageBase64 E st imageId;
          st3 = st2\<lparr>imageBase64s := (imageBase64s st2)(imageId \<mapsto> imageBase64)\<rparr>;
          newResult = \<lparr>promptId = pid prompt, status = loading, data = Null, error_text = None\<rparr>
      in (updateResultHistory imageId (pid prompt) (\<lambda>prev. prev @ [newResult]) st3, imageBase64))"

definition runSinglePrompt_catch ::
  "Prompt \<Rightarrow> string \<Rightarrow> jserror \<Rightarrow> state \<Rightarrow> state \<times> AnalysisResult option" where
  "runSinglePrompt_catch prompt imageId e st =
     (if name e = Some ''AbortError'' then (st, None)
      else
        (let errorResult =
               \<lparr>promptId = pid prompt, status = error, data = Null, error_text = message e\<rparr>
         in (updateResultHistory imageId (pid prompt) (\<lambda>prev. butlast prev @ [errorResult]) st,
             Some errorResult)))"

definition runSinglePrompt_finally ::
  "Prompt \<Rightarrow> string \<Rightarrow> state \<times> AnalysisResult option \<Rightarrow> state \<times> AnalysisResult option" where
  "runSinglePrompt_finally prompt imageId r =
     (case r of (st, res) \<Rightarrow>
        (st\<lparr>abortControllers := (abortControllers st)(abortKey imageId prompt := None)\<rparr>, res))"

fun consumeEvents :: "stream_event list \<Rightarrow> string \<Rightarrow> jserror + string" where
  \<comment> \<open>the \<open>for await\<close> loop: the text gathered in \<open>finalResultData\<close>, or the exception
      thrown at an error event\<close>
  "consumeEvents [] acc = Inr acc"
| "consumeEvents (EvDelta c # es) acc = consumeEvents es (acc @ c)"
| "consumeEvents (EvError m # es) acc = Inl (Error m)"

definition fetchAnalysisStream_settle :: "stream_response \<Rightarrow> jserror + string" where
  "fetchAnalysisStream_settle response =
     (case response of
        SRejected e \<Rightarrow> Inl e
      | SStatus n \<Rightarrow> Inl (Error (''API request failed with status '' @ showNat n))
      | SBody chunks \<Rightarrow> consumeEvents (decodeStream decoder0 chunks) [])"

definition runSinglePrompt_stream ::
  "Prompt \<Rightarrow> string \<Rightarrow> stream_response \<Rightarrow> state \<Rightarrow> state \<times> AnalysisResult option" where
  "runSinglePrompt_stream prompt imageId response st =
     runSinglePrompt_finally prompt imageId
       (case fetchAnalysisStream_settle response of
          Inl e \<Rightarrow> runSinglePrompt_catch prompt imageId e st
        | Inr finalResultData \<Rightarrow>
            (let finalResultDataTrimmed = trim finalResultData;
                 finish = (\<lambda>r. r\<lparr>status := success, data := Str finalResultDataTrimmed\<rparr>);
                 prev = historyOf st imageId (pid prompt)
             in (updateResultHistory imageId (pid prompt)
                   (\<lambda>prev. if prev = [] then prev else butlast prev @ [finish (last prev)]) st,
                 if prev = [] then None else Some (finish (last prev)))))"

definition nullLengthError :: jserror where
  \<comment> \<open>reading \<open>length\<close> of \<open>null\<close>; the wording of the message is the JavaScript engine's\<close>
  "nullLengthError =
     \<lparr>name = Some ''TypeError'',
      message = Some (''Cannot read properties of null (reading '' @ [CHR 0x27] @ ''length''
                      @ [CHR 0x27] @ '')'')\<rparr>"

definition hasPositiveLength :: "resultData \<Rightarrow> bool option" where
  \<comment> \<open>\<open>resultData.length > 0\<close>; \<open>None\<close> when the read throws\<close>
  "hasPositiveLength d =
     (case d of Null \<Rightarrow> None | Str s \<Rightarrow> Some (s \<noteq> []) | Num x \<Rightarrow> Some False
      | Boxes bs \<Rightarrow> Some (bs \<noteq> []) | ChildResults rs \<Rightarrow> Some (rs \<noteq> [])
      | Json j positive \<Rightarrow> Some positive)"

definition runSinglePrompt_single ::
  "env \<Rightarrow> Prompt \<Rightarrow> string \<Rightarrow> json_response \<Rightarrow> state \<Rightarrow> state \<times> AnalysisResult option" where
  "runSinglePrompt_single E prompt imageId response st =
     runSinglePrompt_finally prompt imageId
       (case fetchAnalysis_settle E prompt response of
          Inl e \<Rightarrow> runSinglePrompt_catch prompt imageId e st
        | Inr parsedData \<Rightarrow>
            (let successResult =
                   \<lparr>promptId = pid prompt, status = success, data = parsedData, error_text = None\<rparr>;
                 store = (\<lambda>s. (updateResultHistory imageId (pid prompt)
                                  (\<lambda>prev. butlast prev @ [successResult]) s, Some successResult))
             in if ptype prompt = BoundingBox then
                  (case hasPositiveLength parsedData of
                     None \<Rightarrow> runSinglePrompt_catch prompt imageId nullLengthError st
                   | Some visible \<Rightarrow>
                       store (st\<lparr>overlayVisibility := (overlayVisibility st)(imageId \<mapsto>
                                (case overlayVisibility st imageId of
                                   None \<Rightarrow> Map.empty | Some m \<Rightarrow> m)(pid prompt \<mapsto> visible))\<rparr>))
                else store st))"

definition runSinglePrompt ::
  "env \<Rightarrow> Prompt \<Rightarrow> string \<Rightarrow> state \<Rightarrow> state \<times> AnalysisResult option" where
  "runSinglePrompt E prompt imageId st =
     (case runSinglePrompt_begin E prompt imageId st of (st1, imageBase64) \<Rightarrow>
        if ptype prompt = Text then
          (let req = StreamReq prompt imageBase64 in
           runSinglePrompt_stream prompt imageId (fetchStream E (length (requests st1)) req)
             (st1\<lparr>requests := requests st1 @ [req]\<rparr>))
        else
          (let req = SingleReq prompt imageBase64 in
           runSinglePrompt_single E prompt imageId (fetchJson E (length (requests st1)) req)
             (st1\<lparr>requests := requests st1 @ [req]\<rparr>)))"

subsection \<open>\<open>handlePromptCompletion\<close>\<close>

definition runChildren :: "env \<Rightarrow> string \<Rightarrow> Prompt list \<Rightarrow> state \<Rightarrow> state" where
  \<comment> \<open>\<open>for (const child of childrenToRun) { await runSinglePrompt(child, imageId); }\<close>\<close>
  "runChildren E imageId childrenToRun st =
     fold (\<lambda>child s. fst (runSinglePrompt E child imageId s)) childrenToRun st"

definition conditionMet :: "string \<Rightarrow> yesno" where
  "conditionMet d = (if includes_str (trim (toLowerCase d)) ''yes'' then yes else no)"

definition yesNoChildrenToRun :: "Prompt \<Rightarrow> string \<Rightarrow> string \<Rightarrow> state \<Rightarrow> Prompt list" where
  "yesNoChildrenToRun prompt d imageId st =
     filter (\<lambda>c. parentId c = Some (pid prompt) \<and> condition c = Some (conditionMet d)
                 \<and> isPending st imageId (pid c)) (prompts st)"

definition scoreChildrenToRun :: "Prompt \<Rightarrow> jsnum \<Rightarrow> string \<Rightarrow> state \<Rightarrow> Prompt list" where
  "scoreChildrenToRun prompt score imageId st =
     filter (\<lambda>child.
        if parentId child \<noteq> Some (pid prompt) \<or> \<not> isPending st imageId (pid child) then False
        else case (scoreConditionOperator child, scoreConditionValue child) of
          (Some op, Some val) \<Rightarrow>
            if op = above \<and> js_gt score val then True
            else if op = below \<and> js_lt score val then True
            else False
        | _ \<Rightarrow> False) (prompts st)"

definition bboxChildrenToRun :: "Prompt \<Rightarrow> string \<Rightarrow> state \<Rightarrow> Prompt list" where
  "bboxChildrenToRun prompt imageId st =
     filter (\<lambda>c. parentId c = Some (pid prompt) \<and> isPending st imageId (pid c)) (prompts st)"

fun fanOut :: "env \<Rightarrow> nat \<Rightarrow> Prompt \<Rightarrow> BoundingBox list \<Rightarrow> string \<Rightarrow> BboxChildResult list" where
  \<comment> \<open>\<open>Promise.all(bboxes.map(bbox => fetchBboxChildAnalysis(...)))\<close>: the requests go out
      in the order of the detections and the results come back in that order\<close>
  "fanOut E n child [] imageBase64 = []"
| "fanOut E n child (b # bs) imageBase64 =
     fetchBboxChildAnalysis E n child b imageBase64 # fanOut E (Suc n) child bs imageBase64"

definition runBboxChild ::
  "env \<Rightarrow> string \<Rightarrow> string \<Rightarrow> BoundingBox list \<Rightarrow> Prompt \<Rightarrow> state \<Rightarrow> state" where
  \<comment> \<open>one turn of the loop over the children of a detection prompt;
      \<open>fetchBboxChildAnalysis\<close> never returns \<open>null\<close>, so the filter keeps every result\<close>
  "runBboxChild E imageId imageBase64 bboxes child st =
     (let loadingResult =
            \<lparr>promptId = pid child, status = loading, data = ChildResults [], error_text = None\<rparr>;
          st1 = setHistory imageId (pid child) [loadingResult] st;
          finalChildData = fanOut E (length (requests st1)) child bboxes imageBase64;
          st2 = st1\<lparr>requests := requests st1 @ map (\<lambda>b. ChildReq child b imageBase64) bboxes\<rparr>;
          successResult =
            \<lparr>promptId = pid child, status = success, data = ChildResults finalChildData,
             error_text = None\<rparr>
      in setHistory imageId (pid child) [successResult] st2)"

text \<open>
  The three blocks of \<open>handlePromptCompletion\<close> follow one another as in the source; the
  list of prompts and the image cache are read once, at the start. A result handed to this
  function comes from \<open>runSinglePrompt\<close>, whose arrays are arrays of detections.
\<close>

definition handlePromptCompletion ::
  "env \<Rightarrow> Prompt \<Rightarrow> AnalysisResult \<Rightarrow> string \<Rightarrow> state \<Rightarrow> state" where
  "handlePromptCompletion E prompt result imageId st =
     (let st1 = (case data result of
                   Str d \<Rightarrow>
                     if ptype prompt = YesNo \<and> status result = success
                     then runChildren E imageId (yesNoChildrenToRun prompt d imageId st) st
                     else st
                 | _ \<Rightarrow> st);
          st2 = (case data result of
                   Num score \<Rightarrow>
                     if ptype prompt = Score \<and> status result = success
                     then runChildren E imageId (scoreChildrenToRun prompt score imageId st1) st1
                     else st1
                 | _ \<Rightarrow> st1)
      in case data result of
           Boxes bboxes \<Rightarrow>
             if ptype prompt = BoundingBox \<and> status result = success \<and> bboxes \<noteq> [] then
               (let childrenToRun = bboxChildrenToRun prompt imageId st2 in
                if childrenToRun = [] then st2
                else
                  (let imageBase64 = getImageBase64 E st imageId;
                       st3 = st2\<lparr>imageBase64s := (imageBase64s st2)(imageId \<mapsto> imageBase64)\<rparr>
                   in fold (runBboxChild E imageId imageBase64 bboxes) childrenToRun st3))
             else st2
         | _ \<Rightarrow> st2)"

subsection \<open>\<open>runSingleAnalysisFlow\<close> and \<open>runPendingAnalysis\<close>\<close>

text \<open>
  \<open>findDescendants\<close> of the source recurses once for every child it meets and does not
  return when the parent pointers form a cycle. The model counts the nesting: \<open>depth\<close> is
  the number of nested calls still allowed and \<open>None\<close> stands for the recursion that
  never returns. A nesting deeper than the number of prompts passes the same prompt twice,
  so starting with \<open>length prompts\<close> loses no result: the search then fails exactly when
  a cycle of parent pointers lies below the prompt, and allowing more nested calls gives
  the same answer (lemmas \<open>findDescendants_cycle\<close> and \<open>findDescendants_fuel\<close>).
\<close>

fun findDescendants :: "nat \<Rightarrow> Prompt list \<Rightarrow> string \<Rightarrow> Prompt list \<Rightarrow> string list option" where
  "findDescendants depth all parent [] = Some []"
| "findDescendants depth all parent (p # ps) =
     (if parentId p = Some parent then
        (case depth of
           0 \<Rightarrow> None
         | Suc d \<Rightarrow>
             (case findDescendants d all (pid p) all of
                None \<Rightarrow> None
              | Some deeper \<Rightarrow>
                  map_option (\<lambda>rest. pid p # deeper @ rest) (findDescendants depth all parent ps)))
      else findDescendants depth all parent ps)"

definition clearHistories :: "string \<Rightarrow> string list \<Rightarrow> state \<Rightarrow> state" where
  \<comment> \<open>deletes the whole history of each listed prompt for the image\<close>
  "clearHistories imageId ids st =
     (case results st imageId of
        None \<Rightarrow> st
      | Some currentImageResults \<Rightarrow>
          st\<lparr>results := (results st)(imageId \<mapsto>
               (\<lambda>k. if k \<in> set ids then None else currentImageResults k))\<rparr>)"

definition runSingleAnalysisFlow :: "env \<Rightarrow> Prompt \<Rightarrow> state \<Rightarrow> state option" where
  "runSingleAnalysisFlow E prompt st =
     (case selectedImageId st of
        None \<Rightarrow> Some st
      | Some imageId \<Rightarrow>
          if imageId = [] then Some st
          else
            (case findDescendants (length (prompts st)) (prompts st) (pid prompt) (prompts st) of
               None \<Rightarrow> None
             | Some descendantsIds \<Rightarrow>
                 (let st1 = (if descendantsIds \<noteq> [] then clearHistories imageId descendantsIds st
                             else st)
                  in case runSinglePrompt E prompt imageId st1 of
                       (st2, None) \<Rightarrow> Some st2
                     | (st2, Some result) \<Rightarrow>
                         Some (handlePromptCompletion E prompt result imageId st2))))"

fun mapSet :: "(string \<times> Prompt) list \<Rightarrow> string \<Rightarrow> Prompt \<Rightarrow> (string \<times> Prompt) list" where
  \<comment> \<open>\<open>Map.set\<close>: a known key keeps its place and takes the new entry, a new key goes last\<close>
  "mapSet [] k v = [(k, v)]"
| "mapSet ((k', v') # m) k v = (if k' = k then (k, v) # m else (k', v') # mapSet m k v)"

definition requeueParent ::
  "state \<Rightarrow> string \<Rightarrow> Prompt \<Rightarrow> (string \<times> Prompt) list \<Rightarrow> (string \<times> Prompt) list" where
  "requeueParent st imageId child tasksToRun =
     (case parentId child of
        None \<Rightarrow> tasksToRun
      | Some parent \<Rightarrow>
          (case (find (\<lambda>p. pid p = parent) (prompts st), imageResults st imageId parent) of
             (Some parentPrompt, Some parentResultHistory) \<Rightarrow>
               if parentResultHistory \<noteq> [] \<and> status (last parentResultHistory) = success
               then mapSet tasksToRun (pid parentPrompt) parentPrompt
               else tasksToRun
           | _ \<Rightarrow> tasksToRun))"

definition tasksToRun :: "state \<Rightarrow> string \<Rightarrow> Prompt list" where
  "tasksToRun st imageId =
     (let allPendingPrompts = filter (\<lambda>p. isPending st imageId (pid p)) (prompts st);
          independent = fold (\<lambda>p m. mapSet m (pid p) p)
                          (filter (\<lambda>p. \<not> truthy (parentId p)) allPendingPrompts) []
      in map snd (fold (requeueParent st imageId)
                    (filter (\<lambda>p. truthy (parentId p)) allPendingPrompts) independent))"

fun runTasks :: "env \<Rightarrow> Prompt list \<Rightarrow> state \<Rightarrow> state option" where
  "runTasks E [] st = Some st"
| "runTasks E (task # taskList) st =
     (case runSingleAnalysisFlow E task st of
        None \<Rightarrow> None
      | Some st' \<Rightarrow> runTasks E taskList st')"

definition runPendingAnalysis :: "env \<Rightarrow> state \<Rightarrow> state option" where
  "runPendingAnalysis E st =
     (case selectedImageId st of
        None \<Rightarrow> Some st
      | Some imageId \<Rightarrow>
          if imageId = [] then Some st
          else if filter (\<lambda>p. isPending st imageId (pid p)) (prompts st) = [] then Some st
          else if tasksToRun st imageId = [] then Some st
          else runTasks E (tasksToRun st imageId) st)"

subsection \<open>\<open>deletePrompt\<close>\<close>


section \<open>Notions used to state the properties\<close>

definition promptRequest :: "string \<Rightarrow> Prompt \<Rightarrow> request" where
  \<comment> \<open>the request \<open>runSinglePrompt\<close> sends for a prompt\<close>
  "promptRequest imageBase64 p =
     (if ptype p = Text then StreamReq p imageBase64 else SingleReq p imageBase64)"

definition failureMessage :: "json_response \<Rightarrow> string option" where
  \<comment> \<open>the message of the exception a per-object call ends with, when its request fails\<close>
  "failureMessage r =
     (case r of
        JRejected e \<Rightarrow> Some (templateText (message e))
      | JStatus k \<Rightarrow> Some (''API failed: '' @ showNat k)
      | JBody t c \<Rightarrow> None)"

definition childSuccess :: "Prompt \<Rightarrow> BboxChildResult list \<Rightarrow> AnalysisResult" where
  "childSuccess child rs =
     \<lparr>promptId = pid child, status = success, data = ChildResults rs, error_text = None\<rparr>"

definition settled :: "string \<Rightarrow> string \<Rightarrow> state \<Rightarrow> state \<Rightarrow> bool" where
  \<comment> \<open>what the part of \<open>runSinglePrompt\<close> after the request may change: the history of its
      own prompt, which stays or gets its latest entry replaced\<close>
  "settled imageId i st st' \<longleftrightarrow>
     requests st' = requests st \<and> prompts st' = prompts st
     \<and> imageBase64s st' = imageBase64s st \<and> selectedImageId st' = selectedImageId st
     \<and> (\<exists>H. (H = historyOf st imageId i \<or> (\<exists>x. H = butlast (historyOf st imageId i) @ [x]))
           \<and> (\<forall>j k. historyOf st' j k = (if j = imageId \<and> k = i then H else historyOf st j k)))"

definition ran :: "env \<Rightarrow> Prompt \<Rightarrow> string \<Rightarrow> state \<Rightarrow> state \<Rightarrow> bool" where
  \<comment> \<open>what one call of \<open>runSinglePrompt\<close> changes: one request more, one entry more in the
      history of its own prompt\<close>
  "ran E prompt imageId st st' \<longleftrightarrow>
     requests st' = requests st @ [promptRequest (getImageBase64 E st imageId) prompt]
     \<and> prompts st' = prompts st \<and> selectedImageId st' = selectedImageId st
     \<and> getImageBase64 E st' = getImageBase64 E st
     \<and> (\<exists>x. \<forall>j k. historyOf st' j k =
            (if j = imageId \<and> k = pid prompt then historyOf st imageId (pid prompt) @ [x]
             else historyOf st j k))"

definition parentSucceeded :: "state \<Rightarrow> string \<Rightarrow> Prompt \<Rightarrow> bool" where
  \<comment> \<open>the test under which \<open>runPendingAnalysis\<close> queues the parent of a pending child\<close>
  "parentSucceeded st imageId child =
     (case parentId child of
        None \<Rightarrow> False
      | Some parent \<Rightarrow>
          find (\<lambda>p. pid p = parent) (prompts st) \<noteq> None
          \<and> historyOf st imageId parent \<noteq> []
          \<and> status (last (historyOf st imageId parent)) = success)"

text \<open>
  Descendants along the parent pointers of a prompt list, and chains of children of a given
  length below a prompt; both serve to show that a prompt is not its own descendant
  whenever \<open>findDescendants\<close> returns.
\<close>

fun deep :: "nat \<Rightarrow> Prompt list \<Rightarrow> string \<Rightarrow> bool" where
  "deep 0 all x = True"
| "deep (Suc n) all x = (\<exists>p \<in> set all. parentId p = Some x \<and> deep n all (pid p))"

inductive descendant :: "Prompt list \<Rightarrow> string \<Rightarrow> string \<Rightarrow> bool" for all where
  child: "p \<in> set all \<Longrightarrow> parentId p = Some x \<Longrightarrow> descendant all x (pid p)"
| below: "p \<in> set all \<Longrightarrow> parentId p = Some x \<Longrightarrow> descendant all (pid p) y \<Longrightarrow> descendant all x y"

section \<open>Two overlapping runs of one prompt\<close>

text \<open>
  JavaScript runs each piece of an asynchronous function to its next \<open>await\<close> without
  interruption. For a prompt that is not of type Text, \<open>runSingleAnalysisFlow\<close> has two
  such pieces when the encoded image is already cached: up to the request
  (\<open>runSingleAnalysisFlow_begin\<close>) and from the settled request to the end
  (\<open>runSingleAnalysisFlow_settle\<close>). \<open>runOneTwice\<close> is the order of these pieces when the
  flow is started twice for the same prompt and the second start comes before the first
  request settles: the second start calls \<open>abort('New request initiated')\<close> on the first
  controller, the first \<open>fetch\<close> is rejected with that reason, and then the second request
  is answered with \<open>response\<close>. \<open>descendantsIds\<close> is what \<open>findDescendants\<close> returned.
\<close>

definition abortReason :: jserror where
  \<comment> \<open>the string \<open>'New request initiated'\<close>, with which an aborted \<open>fetch\<close> rejects: a
      string has neither a \<open>name\<close> nor a \<open>message\<close>\<close>
  "abortReason = \<lparr>name = None, message = None\<rparr>"

definition requestSent :: "env \<Rightarrow> Prompt \<Rightarrow> string \<Rightarrow> state \<Rightarrow> state" where
  "requestSent E prompt imageId st =
     (case runSinglePrompt_begin E prompt imageId st of (st1, imageBase64) \<Rightarrow>
        st1\<lparr>requests := requests st1 @ [promptRequest imageBase64 prompt]\<rparr>)"

definition runSingleAnalysisFlow_begin ::
  "env \<Rightarrow> Prompt \<Rightarrow> string \<Rightarrow> string list \<Rightarrow> state \<Rightarrow> state" where
  "runSingleAnalysisFlow_begin E prompt imageId descendantsIds st =
     requestSent E prompt imageId
       (if descendantsIds \<noteq> [] then clearHistories imageId descendantsIds st else st)"

definition runSingleAnalysisFlow_settle ::
  "env \<Rightarrow> Prompt \<Rightarrow> string \<Rightarrow> json_response \<Rightarrow> state \<Rightarrow> state" where
  "runSingleAnalysisFlow_settle E prompt imageId response st =
     (case runSinglePrompt_single E prompt imageId response st of
        (st2, None) \<Rightarrow> st2
      | (st2, Some result) \<Rightarrow> handlePromptCompletion E prompt result imageId st2)"

definition runOneTwice ::
  "env \<Rightarrow> Prompt \<Rightarrow> string \<Rightarrow> string list \<Rightarrow> json_response \<Rightarrow> state \<Rightarrow> state" where
  "runOneTwice E prompt imageId descendantsIds response st =
     (let a = runSingleAnalysisFlow_begin E prompt imageId descendantsIds st;
          b = runSingleAnalysisFlow_begin E prompt imageId descendantsIds a;
          c = runSingleAnalysisFlow_settle E prompt imageId (JRejected abortReason) b
      in runSingleAnalysisFlow_settle E prompt imageId response c)"

section \<open>Example inputs\<close>

definition mkPrompt :: "string \<Rightarrow> ResultType \<Rightarrow> Prompt" where
  "mkPrompt i t = \<lparr>pid = i, ptext = [], ptype = t, scoreRange = None, categories = None,
     jsonSchema = None, parentId = None, condition = None, scoreConditionOperator = None,
     scoreConditionValue = None, regionType = None, regionCoords = None\<rparr>"

definition initialState :: "Prompt list \<Rightarrow> string \<Rightarrow> state" where
  "initialState ps imageId = \<lparr>prompts = ps, selectedImageId = Some imageId,
     imageBase64s = Map.empty, results = Map.empty, overlayVisibility = Map.empty,
     abortControllers = Map.empty, aborted = [], controllers = 0, requests = []\<rparr>"

definition replyEnv :: "string \<Rightarrow> env" where
  \<comment> \<open>an endpoint that answers every request with the same text\<close>
  "replyEnv answer = \<lparr>fetchJson = (\<lambda>n r. JBody False answer),
     fetchStream = (\<lambda>n r. SBody [Delta answer]),
     fileToBase64 = (\<lambda>i. ''data:'' @ i), parseFloat = (\<lambda>s. Fin 4),
     JSON_parse = (\<lambda>s. None)\<rparr>"

definition secondFailsEnv :: env where
  \<comment> \<open>an endpoint whose second answer is a server error\<close>
  "secondFailsEnv = (replyEnv ''Yes'')\<lparr>fetchJson :=
     (\<lambda>n r. if n = 1 then JStatus 500 else JBody False ''Yes'')\<rparr>"

definition succeeded :: "string \<Rightarrow> resultData \<Rightarrow> AnalysisResult" where
  "succeeded i d = \<lparr>promptId = i, status = success, data = d, error_text = None\<rparr>"

definition yesNoParent :: Prompt where
  "yesNoParent = mkPrompt ''p'' YesNo"

definition yesChild :: Prompt where
  "yesChild = (mkPrompt ''c1'' Number)\<lparr>parentId := Some ''p'', condition := Some yes\<rparr>"

definition noChild :: Prompt where
  "noChild = (mkPrompt ''c2'' Number)\<lparr>parentId := Some ''p'', condition := Some no\<rparr>"

definition scoreParent :: Prompt where
  "scoreParent = mkPrompt ''s'' Score"

definition aboveChild :: Prompt where
  "aboveChild = (mkPrompt ''a'' Text)\<lparr>parentId := Some ''s'',
     scoreConditionOperator := Some above, scoreConditionValue := Some (Fin 5)\<rparr>"

definition belowChild :: Prompt where
  "belowChild = (mkPrompt ''b'' Text)\<lparr>parentId := Some ''s'',
     scoreConditionOperator := Some below, scoreConditionValue := Some (Fin 5)\<rparr>"

definition bboxParent :: Prompt where
  "bboxParent = mkPrompt ''d'' BoundingBox"

definition bboxKid :: Prompt where
  "bboxKid = (mkPrompt ''k'' YesNo)\<lparr>parentId := Some ''d''\<rparr>"

definition catBox :: BoundingBox where
  "catBox = \<lparr>box = [Fin 10, Fin 20, Fin 300, Fin 400], label = ''cat''\<rparr>"

definition dogBox :: BoundingBox where
  "dogBox = \<lparr>box = [Fin 500, Fin 100, Fin 900, Fin 800], label = ''dog''\<rparr>"






definition answeredState :: state where
  \<comment> \<open>the child of the score prompt already has a stored result\<close>
  "answeredState = (initialState [scoreParent, aboveChild] ''img'')\<lparr>results :=
     [''img'' \<mapsto> [''a'' \<mapsto> [succeeded ''a'' (Str ''seen'')]]]\<rparr>"

definition cachedState :: state where
  \<comment> \<open>one prompt, the encoded image already cached\<close>
  "cachedState = (initialState [yesNoParent] ''img'')\<lparr>imageBase64s := [''img'' \<mapsto> ''data:img'']\<rparr>"

definition answeredParentState :: state where
  \<comment> \<open>the Yes/No prompt has succeeded, its child has been added since\<close>
  "answeredParentState = (initialState [yesNoParent, yesChild] ''img'')\<lparr>results :=
     [''img'' \<mapsto> [''p'' \<mapsto> [succeeded ''p'' (Str ''Yes'')]]]\<rparr>"

definition failingEnv :: env where
  \<comment> \<open>an endpoint that answers every request with a server error\<close>
  "failingEnv = (replyEnv ''Yes'')\<lparr>fetchJson := (\<lambda>n r. JStatus 500)\<rparr>"

definition afterFailedRun :: state where
  \<comment> \<open>the state a first run leaves when the request for the parent fails\<close>
  "afterFailedRun =
     the (runPendingAnalysis failingEnv (initialState [yesNoParent, yesChild] ''img''))"

definition afterNoRun :: state where
  \<comment> \<open>the state a first run leaves when the parent is answered \<open>No\<close>\<close>
  "afterNoRun =
     the (runPendingAnalysis (replyEnv ''No'') (initialState [yesNoParent, yesChild] ''img''))"

section \<open>Auxiliary facts\<close>

subsection \<open>Strings\<close>

lemma startsWith_prefix: "startsWith s p \<longleftrightarrow> prefix p s"
  by (induction s p rule: startsWith.induct) auto

lemma indexOf_sublist: "indexOf s p = None \<longleftrightarrow> \<not> sublist p s"
  by (induction s) (simp_all add: startsWith_prefix sublist_Cons_right)

lemma includes_str_sublist: "includes_str s p \<longleftrightarrow> sublist p s"
  by (simp add: includes_str_def indexOf_sublist)

lemma sublist_dropWhile:
  assumes "p \<noteq> []" "\<not> P (hd p)"
  shows "sublist p (dropWhile P s) \<longleftrightarrow> sublist p s"
proof (induction s)
  case Nil
  then show ?case by simp
next
  case (Cons c cs)
  show ?case
  proof (cases "P c")
    case True
    with assms have "\<not> prefix p (c # cs)"
      by (cases p) auto
    with True Cons show ?thesis
      by (simp add: sublist_Cons_right)
  next
    case False
    then show ?thesis by simp
  qed
qed

text \<open>Trimming cannot remove or create an occurrence of a text without white space at its ends.\<close>

lemma includes_str_trim:
  assumes "p \<noteq> []" "\<not> isWhiteSpace (hd p)" "\<not> isWhiteSpace (last p)"
  shows "includes_str (trim s) p \<longleftrightarrow> includes_str s p"
proof -
  have "sublist p (trimEnd (trimStart s))
          \<longleftrightarrow> sublist (rev p) (dropWhile isWhiteSpace (rev (trimStart s)))"
    unfolding trimEnd_def by (metis sublist_rev rev_rev_ident)
  also have "\<dots> \<longleftrightarrow> sublist (rev p) (rev (trimStart s))"
    using assms by (intro sublist_dropWhile) (simp_all add: hd_rev)
  also have "\<dots> \<longleftrightarrow> sublist p (trimStart s)"
    by simp
  also have "\<dots> \<longleftrightarrow> sublist p s"
    unfolding trimStart_def using assms by (intro sublist_dropWhile)
  finally show ?thesis
    by (simp add: includes_str_sublist trim_def)
qed

lemma conditionMet_lower:
  "conditionMet d = (if includes_str (toLowerCase d) ''yes'' then yes else no)"
  unfolding conditionMet_def
  by (subst includes_str_trim) (simp_all add: isWhiteSpace_def)

lemma set_trim: "set (trim s) \<subseteq> set s"
proof -
  have "set (trimEnd t) \<subseteq> set t" for t
    unfolding trimEnd_def using set_dropWhileD [of _ isWhiteSpace "rev t"] by auto
  moreover have "set (trimStart s) \<subseteq> set s"
    unfolding trimStart_def using set_dropWhileD [of _ isWhiteSpace s] by auto
  ultimately show ?thesis
    unfolding trim_def by blast
qed

lemma set_stripThinking: "set (stripThinking s) \<subseteq> set s"
proof -
  have cut: "set (take i s @ trimStart (drop n s)) \<subseteq> set s" for i n
    unfolding trimStart_def
    using set_take_subset [of i s] set_drop_subset [of n s]
      set_dropWhileD [of _ isWhiteSpace "drop n s"]
    by auto
  define t where "t = (case indexOf s ''<think>'' of
             None \<Rightarrow> s
           | Some i \<Rightarrow>
               (case indexOf (drop (i + 7) s) ''</think>'' of
                  None \<Rightarrow> s
                | Some j \<Rightarrow> take i s @ trimStart (drop (i + 7 + j + 8) s)))"
  have "set t \<subseteq> set s"
    unfolding t_def using cut by (simp split: option.splits)
  moreover have "stripThinking s = trim t"
    by (simp add: stripThinking_def t_def)
  ultimately show ?thesis
    using set_trim [of t] by simp
qed

subsection \<open>Numbers and numerals\<close>

lemma js_lt_irrefl [simp]: "\<not> js_lt a a"
  by (cases a) simp_all

lemma js_lt_NaN [simp]: "\<not> js_lt a NaN" "\<not> js_lt NaN a"
  by (cases a; simp)+

lemma matchNumeralAt_no_digit:
  assumes "\<forall>c \<in> set s. \<not> isDigit c"
  shows "matchNumeralAt s = None"
proof -
  have "takeWhile isDigit (drop n s) = []" for n
    using assms by (metis in_set_dropD takeWhile_eq_Nil_iff list.set_sel(1) hd_in_set)
  then show ?thesis
    by (simp add: matchNumeralAt_def Let_def)
qed

lemma matchNumeral_no_digit: "\<forall>c \<in> set s. \<not> isDigit c \<Longrightarrow> matchNumeral s = None"
proof (induction s)
  case Nil
  then show ?case by simp
next
  case (Cons c cs)
  then have "matchNumeralAt (c # cs) = None"
    by (intro matchNumeralAt_no_digit) simp
  with Cons show ?case by simp
qed

lemma coerceNumber_no_digit:
  assumes "\<forall>c \<in> set reply. \<not> isDigit c"
  shows "coerceNumber E (stripThinking reply) = NaN"
proof -
  from assms set_stripThinking [of reply] have "\<forall>c \<in> set (stripThinking reply). \<not> isDigit c"
    by blast
  then show ?thesis
    by (simp add: coerceNumber_def matchNumeral_no_digit)
qed

subsection \<open>The store under \<open>runSinglePrompt\<close>\<close>

lemma historyOf_cong: "results st' = results st \<Longrightarrow> historyOf st' = historyOf st"
  by (simp add: historyOf_def imageResults_def fun_eq_iff)

lemma getImageBase64_cong:
  "imageBase64s st' = imageBase64s st \<Longrightarrow> getImageBase64 E st' = getImageBase64 E st"
  by (simp add: getImageBase64_def fun_eq_iff)

lemma historyOf_update [simp]:
  "historyOf (requests_update f0 st) = historyOf st"
  "historyOf (overlayVisibility_update f1 st) = historyOf st"
  "historyOf (abortControllers_update f2 st) = historyOf st"
  "historyOf (aborted_update f3 st) = historyOf st"
  "historyOf (controllers_update f4 st) = historyOf st"
  "historyOf (imageBase64s_update f5 st) = historyOf st"
  by (rule historyOf_cong, simp)+

lemma historyOf_setHistory:
  "historyOf (setHistory imageId i h st) j k =
     (if j = imageId \<and> k = i then h else historyOf st j k)"
  by (simp add: historyOf_def setHistory_def imageResults_def)

lemma setHistory_fields [simp]:
  "requests (setHistory imageId i h st) = requests st"
  "prompts (setHistory imageId i h st) = prompts st"
  "imageBase64s (setHistory imageId i h st) = imageBase64s st"
  "selectedImageId (setHistory imageId i h st) = selectedImageId st"
  by (simp_all add: setHistory_def)

lemma updateResultHistory_fields [simp]:
  "requests (updateResultHistory imageId i u st) = requests st"
  "prompts (updateResultHistory imageId i u st) = prompts st"
  "imageBase64s (updateResultHistory imageId i u st) = imageBase64s st"
  "selectedImageId (updateResultHistory imageId i u st) = selectedImageId st"
  by (simp_all add: updateResultHistory_def)

lemma historyOf_updateResultHistory:
  "historyOf (updateResultHistory imageId i u st) j k =
     (if j = imageId \<and> k = i then u (historyOf st imageId i) else historyOf st j k)"
  by (simp add: updateResultHistory_def historyOf_setHistory)

lemma getImageBase64_update [simp]:
  "getImageBase64 E (requests_update f0 st) = getImageBase64 E st"
  "getImageBase64 E (overlayVisibility_update f1 st) = getImageBase64 E st"
  "getImageBase64 E (abortControllers_update f2 st) = getImageBase64 E st"
  "getImageBase64 E (aborted_update f3 st) = getImageBase64 E st"
  "getImageBase64 E (controllers_update f4 st) = getImageBase64 E st"
  "getImageBase64 E (results_update f5 st) = getImageBase64 E st"
  by (rule getImageBase64_cong, simp)+

lemma getImageBase64_setHistory [simp]:
  "getImageBase64 E (setHistory imageId i h st) = getImageBase64 E st"
  "getImageBase64 E (updateResultHistory imageId i u st) = getImageBase64 E st"
  by (rule getImageBase64_cong, simp)+

text \<open>Once the encoded image is cached, later reads return the same text.\<close>

lemma getImageBase64_cached:
  "imageBase64s st' = (imageBase64s st)(imageId \<mapsto> getImageBase64 E st imageId) \<Longrightarrow>
   getImageBase64 E st' = getImageBase64 E st"
  by (auto simp: getImageBase64_def fun_eq_iff split: option.splits)

lemma settled_catch:
  "settled imageId (pid prompt) st (fst (runSinglePrompt_catch prompt imageId e st))"
  unfolding settled_def runSinglePrompt_catch_def
  by (auto simp: Let_def historyOf_updateResultHistory)

lemma settled_finally:
  assumes "settled imageId (pid prompt) st (fst r)"
  shows "settled imageId (pid prompt) st (fst (runSinglePrompt_finally prompt imageId r))"
proof -
  obtain s res where r: "r = (s, res)" by (cases r)
  show ?thesis
    using assms unfolding settled_def r runSinglePrompt_finally_def by simp
qed

lemma settled_stream:
  "settled imageId (pid prompt) st (fst (runSinglePrompt_stream prompt imageId response st))"
  unfolding runSinglePrompt_stream_def
  by (rule settled_finally)
     (cases "fetchAnalysisStream_settle response"; simp add: settled_catch;
      auto simp: settled_def Let_def historyOf_updateResultHistory)

lemma settled_overlay:
  "settled imageId i (st\<lparr>overlayVisibility := v\<rparr>) st' = settled imageId i st st'"
  by (simp add: settled_def cong: if_cong)

lemma settled_store:
  "settled imageId i st (updateResultHistory imageId i (\<lambda>prev. butlast prev @ [x]) st)"
  by (auto simp: settled_def historyOf_updateResultHistory)

lemma settled_single:
  "settled imageId (pid prompt) st (fst (runSinglePrompt_single E prompt imageId response st))"
  unfolding runSinglePrompt_single_def
  by (rule settled_finally)
     (auto simp: settled_catch Let_def settled_store
             settled_store [of _ _ "st\<lparr>overlayVisibility := v\<rparr>" for st v, unfolded settled_overlay]
           split: sum.splits option.splits)

lemma begin_effect:
  assumes "runSinglePrompt_begin E prompt imageId st = (st1, imageBase64)"
  shows "imageBase64 = getImageBase64 E st imageId"
    and "requests st1 = requests st" and "prompts st1 = prompts st"
    and "selectedImageId st1 = selectedImageId st"
    and "getImageBase64 E st1 = getImageBase64 E st"
    and "historyOf st1 j k =
           (if j = imageId \<and> k = pid prompt
            then historyOf st imageId (pid prompt)
                 @ [\<lparr>promptId = pid prompt, status = loading, data = Null, error_text = None\<rparr>]
            else historyOf st j k)"
  using assms
  by (auto simp: runSinglePrompt_begin_def Let_def historyOf_updateResultHistory
        intro!: getImageBase64_cached split: option.splits)

lemma settled_requests:
  "settled imageId i (st\<lparr>requests := r\<rparr>) st' \<Longrightarrow>
   requests st' = r \<and> prompts st' = prompts st \<and> selectedImageId st' = selectedImageId st
   \<and> imageBase64s st' = imageBase64s st
   \<and> (\<exists>H. (H = historyOf st imageId i \<or> (\<exists>x. H = butlast (historyOf st imageId i) @ [x]))
           \<and> (\<forall>j k. historyOf st' j k = (if j = imageId \<and> k = i then H else historyOf st j k)))"
  by (simp add: settled_def cong: if_cong)

text \<open>
  Every call of \<open>runSinglePrompt\<close> sends exactly one request and leaves exactly one more
  entry in the history of its own prompt; nothing else in the histories changes.
\<close>

lemma runSinglePrompt_ran: "ran E prompt imageId st (fst (runSinglePrompt E prompt imageId st))"
proof -
  obtain st1 imageBase64 where b: "runSinglePrompt_begin E prompt imageId st = (st1, imageBase64)"
    by (cases "runSinglePrompt_begin E prompt imageId st")
  note e = begin_effect [OF b]
  define req where "req = promptRequest imageBase64 prompt"
  define st' where "st' = fst (runSinglePrompt E prompt imageId st)"
  have "settled imageId (pid prompt) (st1\<lparr>requests := requests st1 @ [req]\<rparr>) st'"
    unfolding st'_def req_def runSinglePrompt_def b promptRequest_def
    by (simp add: Let_def settled_stream settled_single)
  from settled_requests [OF this] obtain H where
    s: "requests st' = requests st1 @ [req]" "prompts st' = prompts st1"
       "selectedImageId st' = selectedImageId st1" "imageBase64s st' = imageBase64s st1"
    and H: "H = historyOf st1 imageId (pid prompt)
            \<or> (\<exists>x. H = butlast (historyOf st1 imageId (pid prompt)) @ [x])"
    and h: "\<And>j k. historyOf st' j k = (if j = imageId \<and> k = pid prompt then H else historyOf st1 j k)"
    by blast
  from H e(6) [of imageId "pid prompt"] obtain x where x: "H = historyOf st imageId (pid prompt) @ [x]"
    by auto
  have "getImageBase64 E st' = getImageBase64 E st1"
    by (rule getImageBase64_cong) (rule s)
  with s e x h show ?thesis
    unfolding ran_def st'_def [symmetric] req_def
    by (auto simp: e(6))
qed

lemma runChildren_requests:
  "requests (runChildren E imageId cs st)
     = requests st @ map (promptRequest (getImageBase64 E st imageId)) cs"
proof (induction cs arbitrary: st)
  case Nil
  then show ?case by (simp add: runChildren_def)
next
  case (Cons c cs)
  have r: "ran E c imageId st (fst (runSinglePrompt E c imageId st))"
    by (rule runSinglePrompt_ran)
  have "runChildren E imageId (c # cs) st
          = runChildren E imageId cs (fst (runSinglePrompt E c imageId st))"
    by (simp add: runChildren_def)
  with Cons [of "fst (runSinglePrompt E c imageId st)"] r show ?case
    by (simp add: ran_def)
qed

lemma historyOf_finally [simp]:
  "historyOf (fst (runSinglePrompt_finally prompt imageId r)) = historyOf (fst r)"
  by (cases r) (simp add: runSinglePrompt_finally_def)

lemma snd_finally [simp]: "snd (runSinglePrompt_finally prompt imageId r) = snd r"
  by (cases r) (simp add: runSinglePrompt_finally_def)

lemma runSinglePrompt_number:
  assumes t: "ptype prompt = Number \<or> ptype prompt = Score"
    and r: "fetchJson E (length (requests st)) (SingleReq prompt (getImageBase64 E st imageId))
              = JBody False reply"
  shows "snd (runSinglePrompt E prompt imageId st)
           = Some \<lparr>promptId = pid prompt, status = success,
                   data = Num (coerceNumber E (stripThinking reply)), error_text = None\<rparr>"
    and "historyOf (fst (runSinglePrompt E prompt imageId st)) imageId (pid prompt)
           = historyOf st imageId (pid prompt)
             @ [\<lparr>promptId = pid prompt, status = success,
                  data = Num (coerceNumber E (stripThinking reply)), error_text = None\<rparr>]"
proof -
  obtain st1 imageBase64 where b: "runSinglePrompt_begin E prompt imageId st = (st1, imageBase64)"
    by (cases "runSinglePrompt_begin E prompt imageId st")
  note e = begin_effect [OF b]
  from t have f: "fetchAnalysis_settle E prompt (JBody False reply)
                    = Inr (Num (coerceNumber E (stripThinking reply)))"
    by (auto simp: fetchAnalysis_settle_def Let_def)
  from t have run: "runSinglePrompt E prompt imageId st
      = runSinglePrompt_single E prompt imageId (JBody False reply)
          (st1\<lparr>requests := requests st1 @ [SingleReq prompt imageBase64]\<rparr>)"
    using r by (auto simp: runSinglePrompt_def b Let_def e(1,2))
  show "snd (runSinglePrompt E prompt imageId st)
           = Some \<lparr>promptId = pid prompt, status = success,
                   data = Num (coerceNumber E (stripThinking reply)), error_text = None\<rparr>"
    using t by (auto simp: run runSinglePrompt_single_def f Let_def)
  show "historyOf (fst (runSinglePrompt E prompt imageId st)) imageId (pid prompt)
           = historyOf st imageId (pid prompt)
             @ [\<lparr>promptId = pid prompt, status = success,
                  data = Num (coerceNumber E (stripThinking reply)), error_text = None\<rparr>]"
    using t
    by (auto simp: run runSinglePrompt_single_def f Let_def historyOf_updateResultHistory e(6))
qed

subsection \<open>\<open>handlePromptCompletion\<close> by parent type\<close>

lemma handlePromptCompletion_YesNo:
  assumes "ptype prompt = YesNo" "status result = success" "data result = Str d"
  shows "handlePromptCompletion E prompt result imageId st
           = runChildren E imageId (yesNoChildrenToRun prompt d imageId st) st"
  using assms by (simp add: handlePromptCompletion_def)

lemma handlePromptCompletion_Score:
  assumes "ptype prompt = Score" "status result = success" "data result = Num d"
  shows "handlePromptCompletion E prompt result imageId st
           = runChildren E imageId (scoreChildrenToRun prompt d imageId st) st"
  using assms by (simp add: handlePromptCompletion_def)

lemma scoreChildrenToRun_iff:
  "c \<in> set (scoreChildrenToRun prompt d imageId st) \<longleftrightarrow>
     c \<in> set (prompts st) \<and> parentId c = Some (pid prompt) \<and> isPending st imageId (pid c)
     \<and> (\<exists>v. scoreConditionValue c = Some v
            \<and> (scoreConditionOperator c = Some above \<and> js_gt d v
                \<or> scoreConditionOperator c = Some below \<and> js_lt d v))"
  by (auto simp: scoreChildrenToRun_def split: option.splits)

lemma scoreChildrenToRun_NaN: "scoreChildrenToRun prompt NaN imageId st = []"
  by (auto simp: scoreChildrenToRun_def filter_empty_conv js_gt_def split: option.splits)

subsection \<open>Fan-out\<close>

lemma parentBox_fetchBboxChildAnalysis [simp]:
  "parentBox (fetchBboxChildAnalysis E n child b imageBase64) = b"
  by (simp add: fetchBboxChildAnalysis_def Let_def split: json_response.splits)

lemma fetchBboxChildAnalysis_failure:
  "failureMessage (fetchJson E n (ChildReq child b imageBase64)) = Some m \<Longrightarrow>
   fetchBboxChildAnalysis E n child b imageBase64
     = \<lparr>parentBox = b, resultData = CStr (''Error: '' @ m)\<rparr>"
  by (auto simp: fetchBboxChildAnalysis_def failureMessage_def Error_def templateText_def
        split: json_response.splits)

lemma length_fanOut [simp]: "length (fanOut E n child bs imageBase64) = length bs"
  by (induction bs arbitrary: n) simp_all

lemma parentBox_fanOut [simp]: "map parentBox (fanOut E n child bs imageBase64) = bs"
  by (induction bs arbitrary: n) simp_all

lemma nth_fanOut:
  "i < length bs \<Longrightarrow>
   fanOut E n child bs imageBase64 ! i
     = fetchBboxChildAnalysis E (n + i) child (bs ! i) imageBase64"
proof (induction bs arbitrary: n i)
  case Nil
  then show ?case by simp
next
  case (Cons b bs)
  then show ?case by (cases i) simp_all
qed

lemma runBboxChild_requests:
  "requests (runBboxChild E imageId imageBase64 bs child st)
     = requests st @ map (\<lambda>b. ChildReq child b imageBase64) bs"
  by (simp add: runBboxChild_def Let_def)

lemma runBboxChild_history:
  "historyOf (runBboxChild E imageId imageBase64 bs child st) j k =
     (if j = imageId \<and> k = pid child
      then [childSuccess child (fanOut E (length (requests st)) child bs imageBase64)]
      else historyOf st j k)"
  by (simp add: runBboxChild_def Let_def historyOf_setHistory childSuccess_def)

lemma fold_runBboxChild_requests:
  "requests (fold (runBboxChild E imageId imageBase64 bs) cs st)
     = requests st @ concat (map (\<lambda>c. map (\<lambda>b. ChildReq c b imageBase64) bs) cs)"
  by (induction cs arbitrary: st) (simp_all add: runBboxChild_requests)

lemma fold_runBboxChild_other:
  "k \<notin> pid ` set cs \<Longrightarrow>
   historyOf (fold (runBboxChild E imageId imageBase64 bs) cs st) j k = historyOf st j k"
  by (induction cs arbitrary: st) (simp_all add: runBboxChild_history)

lemma fold_runBboxChild_history:
  "c \<in> set cs \<Longrightarrow>
   \<exists>rs. historyOf (fold (runBboxChild E imageId imageBase64 bs) cs st) imageId (pid c)
          = [childSuccess c rs] \<and> map parentBox rs = bs"
proof (induction cs arbitrary: st c)
  case Nil
  then show ?case by simp
next
  case (Cons a cs)
  show ?case
  proof (cases "pid c \<in> pid ` set cs")
    case True
    then obtain c' where c': "c' \<in> set cs" "pid c' = pid c" by auto
    from Cons.IH [OF c'(1), of "runBboxChild E imageId imageBase64 bs a st"] c'(2)
    show ?thesis by (simp add: childSuccess_def)
  next
    case False
    with Cons.prems have ca: "c = a" by auto
    from False show ?thesis
      by (simp add: fold_runBboxChild_other runBboxChild_history ca childSuccess_def)
  qed
qed

subsection \<open>\<open>deletePrompt\<close>\<close>


subsection \<open>Descendants\<close>

lemma deep_Suc: "deep (Suc n) all x \<Longrightarrow> deep n all x"
  by (induction n arbitrary: x) auto

lemma findDescendants_deep:
  "set ps \<subseteq> set all \<Longrightarrow> \<exists>p \<in> set ps. parentId p = Some x \<and> deep d all (pid p) \<Longrightarrow>
   findDescendants d all x ps = None"
proof (induction d all x ps rule: findDescendants.induct)
  case (1 depth all parent)
  then show ?case by simp
next
  case (2 depth all parent p ps)
  show ?case
  proof (cases "parentId p = Some parent")
    case False
    with 2 show ?thesis by auto
  next
    case True
    show ?thesis
    proof (cases depth)
      case 0
      with True show ?thesis by simp
    next
      case (Suc d)
      show ?thesis
      proof (cases "findDescendants d all (pid p) all")
        case None
        with True Suc show ?thesis by simp
      next
        case (Some deeper)
        have nd: "\<not> deep depth all (pid p)"
        proof
          assume "deep depth all (pid p)"
          then have "\<exists>q \<in> set all. parentId q = Some (pid p) \<and> deep d all (pid q)"
            by (simp add: Suc)
          with "2.IH"(1) [OF True Suc] have "findDescendants d all (pid p) all = None"
            by simp
          with Some show False by simp
        qed
        with "2.prems" have "\<exists>q \<in> set ps. parentId q = Some parent \<and> deep depth all (pid q)"
          by auto
        with "2.IH"(2) [OF True Suc Some] "2.prems"(1)
        have "findDescendants depth all parent ps = None"
          by simp
        with True Suc Some show ?thesis by simp
      qed
    qed
  qed
qed

lemma findDescendants_descendant:
  "set ps \<subseteq> set all \<Longrightarrow> findDescendants d all x ps = Some ds \<Longrightarrow> y \<in> set ds \<Longrightarrow>
   descendant all x y"
proof (induction d all x ps arbitrary: ds rule: findDescendants.induct)
  case (1 depth all parent)
  then show ?case by simp
next
  case (2 depth all parent p ps)
  show ?case
  proof (cases "parentId p = Some parent")
    case False
    with 2 show ?thesis by auto
  next
    case True
    with "2.prems" obtain d deeper rest where
      d: "depth = Suc d" and deeper: "findDescendants d all (pid p) all = Some deeper"
      and rest: "findDescendants depth all parent ps = Some rest"
      and ds: "ds = pid p # deeper @ rest"
      by (auto split: nat.splits option.splits)
    from "2.prems"(1) have p: "p \<in> set all" by simp
    from "2.prems"(3) ds consider "y = pid p" | "y \<in> set deeper" | "y \<in> set rest" by auto
    then show ?thesis
    proof cases
      case 1
      with p True show ?thesis by (auto intro: descendant.child)
    next
      case 2
      from "2.IH"(1) [OF True d _ deeper 2] have "descendant all (pid p) y" by simp
      with p True show ?thesis by (rule descendant.below)
    next
      case 3
      from "2.IH"(2) [OF True d deeper _ rest 3] "2.prems"(1) show ?thesis by simp
    qed
  qed
qed

lemma descendant_deep: "descendant all x y \<Longrightarrow> deep n all y \<Longrightarrow> deep (Suc n) all x"
proof (induction arbitrary: n rule: descendant.induct)
  case (child p x)
  then show ?case by auto
next
  case (below p x y)
  from below.IH [OF below.prems] have "deep (Suc n) all (pid p)" .
  with below.hyps(1,2) have "deep (Suc (Suc n)) all x" by auto
  then show ?case by (rule deep_Suc)
qed

lemma cycle_deep: "descendant all x x \<Longrightarrow> deep n all x"
proof (induction n)
  case 0
  show ?case by simp
next
  case (Suc n)
  then show ?case by (blast intro: descendant_deep)
qed

lemma findDescendants_not_self:
  assumes "findDescendants d all x all = Some ds"
  shows "x \<notin> set ds"
proof
  assume "x \<in> set ds"
  with assms have "descendant all x x"
    by (auto intro: findDescendants_descendant [of all all d x ds])
  then have "deep (Suc d) all x" by (rule cycle_deep)
  then have "findDescendants d all x all = None"
    by (intro findDescendants_deep) auto
  with assms show False by simp
qed

lemma findDescendants_None:
  "findDescendants d all x ps = None \<Longrightarrow> \<exists>p \<in> set ps. parentId p = Some x \<and> deep d all (pid p)"
proof (induction d all x ps rule: findDescendants.induct)
  case (1 depth all parent)
  then show ?case by simp
next
  case (2 depth all parent p ps)
  show ?case
  proof (cases "parentId p = Some parent")
    case False
    with 2 show ?thesis by auto
  next
    case True
    show ?thesis
    proof (cases depth)
      case 0
      with True show ?thesis by simp
    next
      case (Suc d)
      show ?thesis
      proof (cases "findDescendants d all (pid p) all")
        case None
        from "2.IH"(1) [OF True Suc None] have "deep depth all (pid p)"
          by (simp add: Suc)
        with True show ?thesis by auto
      next
        case (Some deeper)
        with "2.prems" True Suc have "findDescendants depth all parent ps = None"
          by (auto split: option.splits)
        from "2.IH"(2) [OF True Suc Some this] show ?thesis by auto
      qed
    qed
  qed
qed

lemma findDescendants_None_iff:
  "findDescendants d all x all = None \<longleftrightarrow> deep (Suc d) all x"
proof
  assume "findDescendants d all x all = None"
  from findDescendants_None [OF this] show "deep (Suc d) all x" by simp
next
  assume "deep (Suc d) all x"
  then have "\<exists>p \<in> set all. parentId p = Some x \<and> deep d all (pid p)" by simp
  with findDescendants_deep [of all all x d] show "findDescendants d all x all = None"
    by blast
qed

lemma descendant_target:
  "descendant all x y \<Longrightarrow> \<exists>q \<in> set all. pid q = y \<and> parentId q \<noteq> None"
  by (induction rule: descendant.induct) auto

lemma deep_bound:
  "\<forall>y. descendant all x y \<longrightarrow> \<not> descendant all y y \<Longrightarrow> deep n all x \<Longrightarrow>
   n \<le> card {p \<in> set all. descendant all x (pid p)}"
proof (induction n arbitrary: x)
  case 0
  then show ?case by simp
next
  case (Suc n)
  from Suc.prems(2) obtain p where p: "p \<in> set all" "parentId p = Some x" "deep n all (pid p)"
    by auto
  then have xp: "descendant all x (pid p)" by (auto intro: descendant.child)
  have sub: "descendant all x y" if "descendant all (pid p) y" for y
    using p(1,2) that by (rule descendant.below)
  with Suc.prems(1) have "\<forall>y. descendant all (pid p) y \<longrightarrow> \<not> descendant all y y" by blast
  from Suc.IH [OF this p(3)] have n: "n \<le> card {q \<in> set all. descendant all (pid p) (pid q)}" .
  from Suc.prems(1) xp have "\<not> descendant all (pid p) (pid p)" by blast
  with p(1) xp sub
  have "{q \<in> set all. descendant all (pid p) (pid q)} \<subset> {q \<in> set all. descendant all x (pid q)}"
    by blast
  then have "card {q \<in> set all. descendant all (pid p) (pid q)}
               < card {q \<in> set all. descendant all x (pid q)}"
    by (intro psubset_card_mono) simp_all
  with n show ?case by simp
qed

lemma deep_cycle:
  assumes "deep (Suc (length all)) all x"
  shows "\<exists>y. descendant all x y \<and> descendant all y y"
proof (rule ccontr)
  assume "\<not> ?thesis"
  then have "\<forall>y. descendant all x y \<longrightarrow> \<not> descendant all y y" by blast
  from deep_bound [OF this assms]
  have "Suc (length all) \<le> card {p \<in> set all. descendant all x (pid p)}" .
  also have "\<dots> \<le> card (set all)"
    by (intro card_mono) auto
  also have "\<dots> \<le> length all" by (rule card_length)
  finally show False by simp
qed

lemma cycle_below_deep:
  assumes "descendant all x y" "descendant all y y"
  shows "deep n all x"
proof (cases n)
  case 0
  then show ?thesis by simp
next
  case (Suc m)
  from assms(2) have "deep m all y" by (rule cycle_deep)
  with assms(1) show ?thesis unfolding Suc by (rule descendant_deep)
qed

text \<open>
  The search fails with \<open>length all\<close> nested calls allowed exactly when a cycle of parent
  pointers lies below the prompt, and then it fails for every number of nested calls.
\<close>

lemma findDescendants_cycle:
  "findDescendants (length all) all x all = None
     \<longleftrightarrow> (\<exists>y. descendant all x y \<and> descendant all y y)"
  unfolding findDescendants_None_iff
  using deep_cycle [of all x] cycle_below_deep [of all x _ "Suc (length all)"]
  by blast

lemma findDescendants_cycle_any:
  "descendant all x y \<Longrightarrow> descendant all y y \<Longrightarrow> findDescendants d all x all = None"
  unfolding findDescendants_None_iff by (rule cycle_below_deep)

lemma findDescendants_more:
  "findDescendants d all x ps = Some ds \<Longrightarrow> d \<le> d' \<Longrightarrow> findDescendants d' all x ps = Some ds"
proof (induction d all x ps arbitrary: ds d' rule: findDescendants.induct)
  case (1 depth all parent)
  then show ?case by simp
next
  case (2 depth all parent p ps)
  show ?case
  proof (cases "parentId p = Some parent")
    case False
    with "2.prems"(1) have "findDescendants depth all parent ps = Some ds" by simp
    from "2.IH"(3) [OF False this "2.prems"(2)] False show ?thesis by simp
  next
    case True
    from "2.prems"(1) True obtain d where d: "depth = Suc d"
      by (cases depth) simp_all
    from "2.prems"(1) True d obtain deeper where
      deeper: "findDescendants d all (pid p) all = Some deeper"
      by (cases "findDescendants d all (pid p) all") simp_all
    from "2.prems"(1) True d deeper obtain rest where
      rest: "findDescendants depth all parent ps = Some rest" and ds: "ds = pid p # deeper @ rest"
      by (cases "findDescendants depth all parent ps") auto
    from "2.prems"(2) d obtain e where e: "d' = Suc e" "d \<le> e"
      by (cases d') auto
    from "2.IH"(1) [OF True d deeper e(2)]
    have a: "findDescendants e all (pid p) all = Some deeper" .
    from "2.IH"(2) [OF True d deeper rest "2.prems"(2)]
    have b: "findDescendants (Suc e) all parent ps = Some rest" by (simp only: e(1))
    show ?thesis
      unfolding e(1) using True a b ds by simp
  qed
qed

text \<open>More nested calls than there are prompts change nothing.\<close>

lemma findDescendants_fuel:
  assumes "length all \<le> d"
  shows "findDescendants d all x all = findDescendants (length all) all x all"
proof (cases "findDescendants (length all) all x all")
  case None
  then obtain y where "descendant all x y" "descendant all y y"
    by (auto simp: findDescendants_cycle)
  then have "findDescendants d all x all = None" by (rule findDescendants_cycle_any)
  with None show ?thesis by simp
next
  case (Some ds)
  from findDescendants_more [OF this assms] Some show ?thesis by simp
qed

lemma findDescendants_acyclic:
  "\<forall>y. \<not> descendant all y y \<Longrightarrow> \<exists>ds. findDescendants (length all) all x all = Some ds"
  using findDescendants_cycle [of all x] by (cases "findDescendants (length all) all x all") blast+

lemma acyclic_search:
  assumes "list_all (\<lambda>p. findDescendants (length all) all (pid p) all \<noteq> None) all"
  shows "\<not> descendant all y y"
proof
  assume c: "descendant all y y"
  then obtain q where "q \<in> set all" "pid q = y"
    by (auto dest: descendant_target)
  with assms have "findDescendants (length all) all y all \<noteq> None"
    by (auto simp: list_all_iff)
  with c show False unfolding findDescendants_cycle by blast
qed

subsection \<open>The completion handler and the single flow\<close>

lemma runChildren_frame:
  "requests (runChildren E imageId cs st)
     = requests st @ map (promptRequest (getImageBase64 E st imageId)) cs
   \<and> prompts (runChildren E imageId cs st) = prompts st
   \<and> selectedImageId (runChildren E imageId cs st) = selectedImageId st
   \<and> getImageBase64 E (runChildren E imageId cs st) = getImageBase64 E st
   \<and> (\<forall>j k. k \<notin> pid ` set cs \<longrightarrow> historyOf (runChildren E imageId cs st) j k = historyOf st j k)"
proof (induction cs arbitrary: st)
  case Nil
  then show ?case by (simp add: runChildren_def)
next
  case (Cons c cs)
  have r: "ran E c imageId st (fst (runSinglePrompt E c imageId st))"
    by (rule runSinglePrompt_ran)
  have "runChildren E imageId (c # cs) st
          = runChildren E imageId cs (fst (runSinglePrompt E c imageId st))"
    by (simp add: runChildren_def)
  with Cons [of "fst (runSinglePrompt E c imageId st)"] r show ?case
    by (auto simp: ran_def)
qed

lemma clearHistories_fields [simp]:
  "requests (clearHistories imageId ids st) = requests st"
  "prompts (clearHistories imageId ids st) = prompts st"
  "selectedImageId (clearHistories imageId ids st) = selectedImageId st"
  "getImageBase64 E (clearHistories imageId ids st) = getImageBase64 E st"
  by (simp_all add: clearHistories_def getImageBase64_def split: option.splits)

lemma historyOf_clearHistories:
  "historyOf (clearHistories imageId ids st) j k =
     (if j = imageId \<and> k \<in> set ids then [] else historyOf st j k)"
  by (simp add: clearHistories_def historyOf_def imageResults_def split: option.splits)

lemma fold_runBboxChild_fields [simp]:
  "prompts (fold (runBboxChild E imageId img bs) cs st) = prompts st"
  "selectedImageId (fold (runBboxChild E imageId img bs) cs st) = selectedImageId st"
  "imageBase64s (fold (runBboxChild E imageId img bs) cs st) = imageBase64s st"
  by (induction cs arbitrary: st; simp add: runBboxChild_def Let_def)+

text \<open>The completion handler only adds requests and only touches prompts that were pending.\<close>

lemma handlePromptCompletion_frame:
  "(\<exists>rest. requests (handlePromptCompletion E prompt result imageId st) = requests st @ rest)
   \<and> prompts (handlePromptCompletion E prompt result imageId st) = prompts st
   \<and> selectedImageId (handlePromptCompletion E prompt result imageId st) = selectedImageId st
   \<and> getImageBase64 E (handlePromptCompletion E prompt result imageId st) = getImageBase64 E st
   \<and> (\<forall>k. \<not> isPending st imageId k \<longrightarrow>
         historyOf (handlePromptCompletion E prompt result imageId st) imageId k
           = historyOf st imageId k)"
proof -
  let ?st' = "handlePromptCompletion E prompt result imageId st"
  consider (same) "?st' = st"
    | (children) cs where "\<forall>c \<in> set cs. isPending st imageId (pid c)"
        "?st' = runChildren E imageId cs st"
    | (fan) cs bs img where "\<forall>c \<in> set cs. isPending st imageId (pid c)"
        "?st' = fold (runBboxChild E imageId img bs) cs
                 (st\<lparr>imageBase64s := (imageBase64s st)(imageId \<mapsto> img)\<rparr>)"
        "img = getImageBase64 E st imageId"
  proof (cases "data result")
    case (Str d)
    show ?thesis
    proof (cases "ptype prompt = YesNo \<and> status result = success")
      case True
      with Str have "?st' = runChildren E imageId (yesNoChildrenToRun prompt d imageId st) st"
        by (simp add: handlePromptCompletion_def)
      moreover have "\<forall>c \<in> set (yesNoChildrenToRun prompt d imageId st). isPending st imageId (pid c)"
        by (simp add: yesNoChildrenToRun_def)
      ultimately show ?thesis by (rule children [rotated])
    next
      case False
      with Str have "?st' = st" by (auto simp: handlePromptCompletion_def)
      then show ?thesis by (rule same)
    qed
  next
    case (Num d)
    show ?thesis
    proof (cases "ptype prompt = Score \<and> status result = success")
      case True
      with Num have "?st' = runChildren E imageId (scoreChildrenToRun prompt d imageId st) st"
        by (simp add: handlePromptCompletion_def)
      moreover have "\<forall>c \<in> set (scoreChildrenToRun prompt d imageId st). isPending st imageId (pid c)"
        by (auto simp: scoreChildrenToRun_def split: if_splits)
      ultimately show ?thesis by (rule children [rotated])
    next
      case False
      with Num have "?st' = st" by (auto simp: handlePromptCompletion_def)
      then show ?thesis by (rule same)
    qed
  next
    case (Boxes bs)
    show ?thesis
    proof (cases "ptype prompt = BoundingBox \<and> status result = success \<and> bs \<noteq> []
                  \<and> bboxChildrenToRun prompt imageId st \<noteq> []")
      case True
      with Boxes have a: "?st' = fold (runBboxChild E imageId (getImageBase64 E st imageId) bs)
                 (bboxChildrenToRun prompt imageId st)
                 (st\<lparr>imageBase64s := (imageBase64s st)(imageId \<mapsto> getImageBase64 E st imageId)\<rparr>)"
        by (simp add: handlePromptCompletion_def Let_def)
      have b: "\<forall>c \<in> set (bboxChildrenToRun prompt imageId st). isPending st imageId (pid c)"
        by (simp add: bboxChildrenToRun_def)
      from fan [OF b a refl] show ?thesis .
    next
      case False
      with Boxes have "?st' = st" by (auto simp: handlePromptCompletion_def Let_def)
      then show ?thesis by (rule same)
    qed
  qed (simp_all add: handlePromptCompletion_def same)
  then show ?thesis
  proof cases
    case same
    then show ?thesis by simp
  next
    case (children cs)
    then have "\<forall>k. \<not> isPending st imageId k \<longrightarrow> k \<notin> pid ` set cs" by auto
    with children(2) runChildren_frame [of E imageId cs st] show ?thesis by simp
  next
    case (fan cs bs img)
    then have "\<forall>k. \<not> isPending st imageId k \<longrightarrow> k \<notin> pid ` set cs" by auto
    moreover have "getImageBase64 E ?st' = getImageBase64 E st"
      by (rule getImageBase64_cached) (simp add: fan(2,3))
    ultimately show ?thesis
      using fan(2) by (simp add: fold_runBboxChild_requests fold_runBboxChild_other)
  qed
qed

lemma runSingleAnalysisFlow_effect:
  assumes sel: "selectedImageId st = Some imageId" "imageId \<noteq> []"
    and ds: "findDescendants (length (prompts st)) (prompts st) (pid prompt) (prompts st) = Some ds"
  shows "\<exists>st'. runSingleAnalysisFlow E prompt st = Some st'
           \<and> (\<exists>rest. requests st' = requests st
                        @ promptRequest (getImageBase64 E st imageId) prompt # rest)
           \<and> (\<exists>x. historyOf st' imageId (pid prompt) = historyOf st imageId (pid prompt) @ [x])
           \<and> prompts st' = prompts st \<and> selectedImageId st' = selectedImageId st
           \<and> getImageBase64 E st' = getImageBase64 E st"
proof -
  define st1 where "st1 = (if ds \<noteq> [] then clearHistories imageId ds st else st)"
  define st2 where "st2 = fst (runSinglePrompt E prompt imageId st1)"
  from ds have self: "pid prompt \<notin> set ds" by (rule findDescendants_not_self)
  have h1: "historyOf st1 imageId (pid prompt) = historyOf st imageId (pid prompt)"
    using self by (simp add: st1_def historyOf_clearHistories)
  have f1: "requests st1 = requests st" "getImageBase64 E st1 = getImageBase64 E st"
    "prompts st1 = prompts st" "selectedImageId st1 = selectedImageId st"
    by (simp_all add: st1_def)
  have r: "ran E prompt imageId st1 st2"
    unfolding st2_def by (rule runSinglePrompt_ran)
  then obtain x where x: "historyOf st2 imageId (pid prompt) = historyOf st imageId (pid prompt) @ [x]"
    and q: "requests st2 = requests st @ [promptRequest (getImageBase64 E st imageId) prompt]"
      "prompts st2 = prompts st" "selectedImageId st2 = selectedImageId st"
      "getImageBase64 E st2 = getImageBase64 E st"
    by (auto simp: ran_def h1 f1)
  from x have np: "\<not> isPending st2 imageId (pid prompt)"
    by (simp add: isPending_def)
  show ?thesis
  proof (cases "snd (runSinglePrompt E prompt imageId st1)")
    case None
    then have "runSingleAnalysisFlow E prompt st = Some st2"
      using sel ds
      by (cases "runSinglePrompt E prompt imageId st1")
         (simp add: runSingleAnalysisFlow_def st1_def st2_def Let_def)
    with x q show ?thesis by simp
  next
    case (Some result)
    then have "runSingleAnalysisFlow E prompt st
                 = Some (handlePromptCompletion E prompt result imageId st2)"
      using sel ds
      by (cases "runSinglePrompt E prompt imageId st1")
         (simp add: runSingleAnalysisFlow_def st1_def st2_def Let_def)
    with handlePromptCompletion_frame [of E prompt result imageId st2] np x q
    show ?thesis by auto
  qed
qed

lemma handlePromptCompletion_idle:
  "status result \<noteq> success \<Longrightarrow> handlePromptCompletion E prompt result imageId st = st"
  by (simp add: handlePromptCompletion_def Let_def split: resultData.splits)

lemma catch_last:
  assumes "historyOf st imageId (pid prompt) = H @ [l]" "status l = loading"
  shows "\<exists>x. historyOf (fst (runSinglePrompt_catch prompt imageId e st)) imageId (pid prompt) = H @ [x]
           \<and> (snd (runSinglePrompt_catch prompt imageId e st) = Some x
               \<or> snd (runSinglePrompt_catch prompt imageId e st) = None \<and> status x = loading)"
  using assms by (simp add: runSinglePrompt_catch_def Let_def historyOf_updateResultHistory)

lemma stream_last:
  assumes "historyOf st imageId (pid prompt) = H @ [l]" "status l = loading"
  shows "\<exists>x. historyOf (fst (runSinglePrompt_stream prompt imageId response st)) imageId (pid prompt)
               = H @ [x]
           \<and> (snd (runSinglePrompt_stream prompt imageId response st) = Some x
               \<or> snd (runSinglePrompt_stream prompt imageId response st) = None \<and> status x = loading)"
proof (cases "fetchAnalysisStream_settle response")
  case (Inl e)
  with catch_last [OF assms, of e] show ?thesis
    by (simp add: runSinglePrompt_stream_def)
next
  case (Inr t)
  with assms show ?thesis
    by (simp add: runSinglePrompt_stream_def Let_def historyOf_updateResultHistory)
qed

lemma single_last:
  assumes "historyOf st imageId (pid prompt) = H @ [l]" "status l = loading"
  shows "\<exists>x. historyOf (fst (runSinglePrompt_single E prompt imageId response st)) imageId (pid prompt)
               = H @ [x]
           \<and> (snd (runSinglePrompt_single E prompt imageId response st) = Some x
               \<or> snd (runSinglePrompt_single E prompt imageId response st) = None \<and> status x = loading)"
proof (cases "fetchAnalysis_settle E prompt response")
  case (Inl e)
  with catch_last [OF assms, of e] show ?thesis
    by (simp add: runSinglePrompt_single_def)
next
  case (Inr d)
  show ?thesis
  proof (cases "ptype prompt = BoundingBox \<and> hasPositiveLength d = None")
    case True
    with Inr catch_last [OF assms, of nullLengthError] show ?thesis
      by (simp add: runSinglePrompt_single_def Let_def)
  next
    case False
    with Inr assms show ?thesis
      by (auto simp: runSinglePrompt_single_def Let_def historyOf_updateResultHistory)
  qed
qed

text \<open>
  The entry \<open>runSinglePrompt\<close> leaves at the end of the history is the result it returns;
  when it returns none, the entry is the placeholder.
\<close>

lemma runSinglePrompt_last:
  "\<exists>x. historyOf (fst (runSinglePrompt E prompt imageId st)) imageId (pid prompt)
          = historyOf st imageId (pid prompt) @ [x]
      \<and> (snd (runSinglePrompt E prompt imageId st) = Some x
          \<or> snd (runSinglePrompt E prompt imageId st) = None \<and> status x = loading)"
proof -
  obtain st1 imageBase64 where b: "runSinglePrompt_begin E prompt imageId st = (st1, imageBase64)"
    by (cases "runSinglePrompt_begin E prompt imageId st")
  note e = begin_effect [OF b]
  define l where "l = \<lparr>promptId = pid prompt, status = loading, data = Null, error_text = None\<rparr>"
  have h: "historyOf (st1\<lparr>requests := r\<rparr>) imageId (pid prompt)
             = historyOf st imageId (pid prompt) @ [l]" for r
    by (simp add: e(6) l_def)
  have l: "status l = loading" by (simp add: l_def)
  show ?thesis
  proof (cases "ptype prompt = Text")
    case True
    with stream_last [OF h l] show ?thesis
      by (simp add: runSinglePrompt_def b Let_def)
  next
    case False
    with single_last [OF h l] show ?thesis
      by (simp add: runSinglePrompt_def b Let_def)
  qed
qed

text \<open>
  The flow of one prompt: the histories of its descendants are cleared, the prompt is
  requested, and the completion handler runs on the entry the request left.
\<close>

lemma runSingleAnalysisFlow_parts:
  assumes sel: "selectedImageId st = Some imageId" "imageId \<noteq> []"
    and ds: "findDescendants (length (prompts st)) (prompts st) (pid prompt) (prompts st) = Some ds"
    and s2: "s2 = fst (runSinglePrompt E prompt imageId
                         (if ds \<noteq> [] then clearHistories imageId ds st else st))"
  shows "\<exists>x. historyOf s2 imageId (pid prompt) = historyOf st imageId (pid prompt) @ [x]
           \<and> requests s2 = requests st @ [promptRequest (getImageBase64 E st imageId) prompt]
           \<and> runSingleAnalysisFlow E prompt st = Some (handlePromptCompletion E prompt x imageId s2)"
proof -
  define st1 where "st1 = (if ds \<noteq> [] then clearHistories imageId ds st else st)"
  from ds have self: "pid prompt \<notin> set ds" by (rule findDescendants_not_self)
  have h1: "historyOf st1 imageId (pid prompt) = historyOf st imageId (pid prompt)"
    using self by (simp add: st1_def historyOf_clearHistories)
  have f1: "requests st1 = requests st" "getImageBase64 E st1 = getImageBase64 E st"
    by (simp_all add: st1_def)
  have "ran E prompt imageId st1 s2"
    unfolding s2 st1_def [symmetric] by (rule runSinglePrompt_ran)
  then have q: "requests s2 = requests st @ [promptRequest (getImageBase64 E st imageId) prompt]"
    by (simp add: ran_def f1)
  from runSinglePrompt_last [of E prompt imageId st1] obtain x where
    x: "historyOf s2 imageId (pid prompt) = historyOf st imageId (pid prompt) @ [x]"
    and r: "snd (runSinglePrompt E prompt imageId st1) = Some x
            \<or> snd (runSinglePrompt E prompt imageId st1) = None \<and> status x = loading"
    unfolding s2 st1_def [symmetric] h1 by blast
  have "runSingleAnalysisFlow E prompt st = Some (handlePromptCompletion E prompt x imageId s2)"
  proof (cases "snd (runSinglePrompt E prompt imageId st1)")
    case None
    with r have "status x = loading" by simp
    then have "handlePromptCompletion E prompt x imageId s2 = s2"
      by (intro handlePromptCompletion_idle) simp
    with None sel ds show ?thesis
      by (cases "runSinglePrompt E prompt imageId st1")
         (simp add: runSingleAnalysisFlow_def st1_def s2 Let_def)
  next
    case (Some result)
    with r have "result = x" by simp
    with Some sel ds show ?thesis
      by (cases "runSinglePrompt E prompt imageId st1")
         (simp add: runSingleAnalysisFlow_def st1_def s2 Let_def)
  qed
  with x q show ?thesis by blast
qed

text \<open>
  A flow leaves alone the history of every prompt that has one and is neither the prompt
  run nor one of its descendants.
\<close>

lemma runSingleAnalysisFlow_other:
  assumes sel: "selectedImageId st = Some imageId" "imageId \<noteq> []"
    and ds: "findDescendants (length (prompts st)) (prompts st) (pid prompt) (prompts st) = Some ds"
    and k: "k \<noteq> pid prompt" "\<not> descendant (prompts st) (pid prompt) k" "\<not> isPending st imageId k"
    and run: "runSingleAnalysisFlow E prompt st = Some st'"
  shows "historyOf st' imageId k = historyOf st imageId k"
proof -
  define st1 where "st1 = (if ds \<noteq> [] then clearHistories imageId ds st else st)"
  define s2 where "s2 = fst (runSinglePrompt E prompt imageId st1)"
  from ds k(2) have "k \<notin> set ds"
    using findDescendants_descendant [of "prompts st" "prompts st" _ "pid prompt" ds k] by auto
  then have h1: "historyOf st1 imageId k = historyOf st imageId k"
    by (simp add: st1_def historyOf_clearHistories)
  have "ran E prompt imageId st1 s2"
    unfolding s2_def by (rule runSinglePrompt_ran)
  with k(1) have h2: "historyOf s2 imageId k = historyOf st1 imageId k"
    by (auto simp: ran_def)
  from runSingleAnalysisFlow_parts [OF sel ds, of s2 E] obtain x where
    "runSingleAnalysisFlow E prompt st = Some (handlePromptCompletion E prompt x imageId s2)"
    unfolding s2_def st1_def by blast
  with run have st': "st' = handlePromptCompletion E prompt x imageId s2" by simp
  from k(3) h1 h2 have "\<not> isPending s2 imageId k" by (simp add: isPending_def)
  with handlePromptCompletion_frame [of E prompt x imageId s2]
  have "historyOf st' imageId k = historyOf s2 imageId k"
    unfolding st' by blast
  with h1 h2 show ?thesis by simp
qed

lemma runTasks_append:
  "runTasks E (xs @ ys) st =
     (case runTasks E xs st of None \<Rightarrow> None | Some s \<Rightarrow> runTasks E ys s)"
  by (induction xs arbitrary: st) (simp_all split: option.splits)

lemma runTasks_frame:
  assumes sel: "selectedImageId st = Some imageId" "imageId \<noteq> []"
    and acyc: "\<forall>y. \<not> descendant (prompts st) y y"
    and ts: "\<forall>t \<in> set ts. pid t \<noteq> k \<and> \<not> descendant (prompts st) (pid t) k"
    and k: "\<not> isPending st imageId k"
  shows "\<exists>st'. runTasks E ts st = Some st'
           \<and> historyOf st' imageId k = historyOf st imageId k
           \<and> prompts st' = prompts st \<and> selectedImageId st' = selectedImageId st
           \<and> getImageBase64 E st' = getImageBase64 E st
           \<and> (\<exists>r. requests st' = requests st @ r)"
  using assms
proof (induction ts arbitrary: st)
  case Nil
  then show ?case by simp
next
  case (Cons a ts)
  from findDescendants_acyclic [OF Cons.prems(3), of "pid a"] obtain ds where
    ds: "findDescendants (length (prompts st)) (prompts st) (pid a) (prompts st) = Some ds"
    by blast
  from runSingleAnalysisFlow_effect [OF Cons.prems(1,2) ds, of E] obtain s rest where
    s: "runSingleAnalysisFlow E a st = Some s"
      "requests s = requests st @ promptRequest (getImageBase64 E st imageId) a # rest"
      "prompts s = prompts st" "selectedImageId s = selectedImageId st"
      "getImageBase64 E s = getImageBase64 E st"
    by blast
  from Cons.prems(4) have a: "k \<noteq> pid a" "\<not> descendant (prompts st) (pid a) k"
    by auto
  from runSingleAnalysisFlow_other [OF Cons.prems(1,2) ds a Cons.prems(5) s(1)]
  have h: "historyOf s imageId k = historyOf st imageId k" .
  from Cons.prems s h have p: "selectedImageId s = Some imageId"
    "\<forall>y. \<not> descendant (prompts s) y y"
    "\<forall>t \<in> set ts. pid t \<noteq> k \<and> \<not> descendant (prompts s) (pid t) k"
    "\<not> isPending s imageId k"
    by (simp_all add: isPending_def)
  from Cons.IH [OF p(1) Cons.prems(2) p(2,3,4)] obtain st' r where
    "runTasks E ts s = Some st'" "historyOf st' imageId k = historyOf s imageId k"
    "prompts st' = prompts s" "selectedImageId st' = selectedImageId s"
    "getImageBase64 E st' = getImageBase64 E s" "requests st' = requests s @ r"
    by blast
  with s h show ?case by simp
qed

subsection \<open>The task list of \<open>runPendingAnalysis\<close>\<close>

lemma requeueParent_eq:
  "requeueParent st imageId child m =
     (if parentSucceeded st imageId child
      then (case find (\<lambda>p. pid p = the (parentId child)) (prompts st) of
              Some parentPrompt \<Rightarrow> mapSet m (pid parentPrompt) parentPrompt | None \<Rightarrow> m)
      else m)"
  by (auto simp: requeueParent_def parentSucceeded_def historyOf_def split: option.splits)

lemma mapSet_mem: "(k, v) \<in> set (mapSet m k v)"
  by (induction m) auto

lemma mapSet_keep: "(k, v) \<in> set m \<Longrightarrow> k' \<noteq> k \<or> v' = v \<Longrightarrow> (k, v) \<in> set (mapSet m k' v')"
  by (induction m) auto

lemma find_pid: "find (\<lambda>p. pid p = i) ps = Some q \<Longrightarrow> pid q = i"
  by (auto simp: find_Some_iff)

lemma requeueParent_keep:
  assumes "(par, parent) \<in> set m" and "find (\<lambda>p. pid p = par) (prompts st) = Some parent"
  shows "(par, parent) \<in> set (requeueParent st imageId c m)"
proof (cases "parentSucceeded st imageId c")
  case False
  with assms show ?thesis by (simp add: requeueParent_eq)
next
  case True
  then obtain p' where p': "parentId c = Some p'"
    by (auto simp: parentSucceeded_def split: option.splits)
  with True obtain q where q: "find (\<lambda>p. pid p = p') (prompts st) = Some q"
    by (auto simp: parentSucceeded_def)
  then have "pid q = p'" by (rule find_pid)
  with q assms(2) have "pid q \<noteq> par \<or> q = parent" by auto
  with assms(1) True p' q show ?thesis
    by (simp add: requeueParent_eq mapSet_keep)
qed

lemma fold_requeueParent_keep:
  assumes "find (\<lambda>p. pid p = par) (prompts st) = Some parent"
  shows "(par, parent) \<in> set m \<Longrightarrow> (par, parent) \<in> set (fold (requeueParent st imageId) cs m)"
  by (induction cs arbitrary: m) (simp_all add: requeueParent_keep [OF _ assms])

lemma fold_requeueParent_add:
  assumes f: "find (\<lambda>p. pid p = par) (prompts st) = Some parent"
    and c: "parentId child = Some par" "parentSucceeded st imageId child"
  shows "child \<in> set cs \<Longrightarrow> (par, parent) \<in> set (fold (requeueParent st imageId) cs m)"
proof (induction cs arbitrary: m)
  case Nil
  then show ?case by simp
next
  case (Cons a cs)
  show ?case
  proof (cases "a = child")
    case True
    from f have "pid parent = par" by (rule find_pid)
    with f c have "(par, parent) \<in> set (requeueParent st imageId child m)"
      by (simp add: requeueParent_eq mapSet_mem)
    with True show ?thesis
      by (simp add: fold_requeueParent_keep [OF f])
  next
    case False
    with Cons show ?thesis by simp
  qed
qed

lemma tasksToRun_parent:
  assumes "child \<in> set (prompts st)" "isPending st imageId (pid child)"
    and "parentId child = Some par" "par \<noteq> []"
    and "find (\<lambda>p. pid p = par) (prompts st) = Some parent"
    and "historyOf st imageId par \<noteq> []" "status (last (historyOf st imageId par)) = success"
  shows "parent \<in> set (tasksToRun st imageId)"
proof -
  from assms have s: "parentSucceeded st imageId child"
    by (simp add: parentSucceeded_def)
  from assms have "child \<in> set (filter (\<lambda>p. truthy (parentId p))
                      (filter (\<lambda>p. isPending st imageId (pid p)) (prompts st)))"
    by (simp add: truthy_def)
  from fold_requeueParent_add [OF assms(5,3) s this]
  show ?thesis
    unfolding tasksToRun_def Let_def by (force simp: image_iff)
qed

lemma tasksToRun_empty:
  assumes "\<forall>p \<in> set (prompts st). isPending st imageId (pid p) \<longrightarrow>
             truthy (parentId p) \<and> \<not> parentSucceeded st imageId p"
  shows "tasksToRun st imageId = []"
proof -
  have a: "filter (\<lambda>p. \<not> truthy (parentId p))
             (filter (\<lambda>p. isPending st imageId (pid p)) (prompts st)) = []"
    using assms by (auto simp: filter_empty_conv)
  have b: "\<forall>c \<in> set cs. \<not> parentSucceeded st imageId c \<Longrightarrow>
           fold (requeueParent st imageId) cs m = m" for cs m
    by (induction cs arbitrary: m) (simp_all add: requeueParent_eq)
  have "fold (requeueParent st imageId)
          (filter (\<lambda>p. truthy (parentId p))
             (filter (\<lambda>p. isPending st imageId (pid p)) (prompts st))) [] = []"
    using assms by (intro b) auto
  with a show ?thesis
    by (simp add: tasksToRun_def Let_def)
qed

lemma runTasks_requests:
  assumes sel: "selectedImageId st = Some imageId" "imageId \<noteq> []"
    and ok: "\<forall>t \<in> set ts. findDescendants (length (prompts st)) (prompts st) (pid t) (prompts st) \<noteq> None"
  shows "\<exists>st'. runTasks E ts st = Some st'
           \<and> (\<forall>t \<in> set ts. \<exists>before after. requests st' = requests st @ before
                   @ promptRequest (getImageBase64 E st imageId) t # after)"
  using assms
proof (induction ts arbitrary: st)
  case Nil
  then show ?case by simp
next
  case (Cons a ts)
  from Cons.prems(3) obtain ds where
    "findDescendants (length (prompts st)) (prompts st) (pid a) (prompts st) = Some ds"
    by auto
  from runSingleAnalysisFlow_effect [OF Cons.prems(1,2) this, of E] obtain s rest where
    s: "runSingleAnalysisFlow E a st = Some s"
      "requests s = requests st @ promptRequest (getImageBase64 E st imageId) a # rest"
      "prompts s = prompts st" "selectedImageId s = selectedImageId st"
      "getImageBase64 E s = getImageBase64 E st"
    by blast
  from Cons.prems s have "selectedImageId s = Some imageId"
    and "\<forall>t \<in> set ts. findDescendants (length (prompts s)) (prompts s) (pid t) (prompts s) \<noteq> None"
    by simp_all
  from Cons.IH [OF this(1) Cons.prems(2) this(2)] obtain st' where
    st': "runTasks E ts s = Some st'"
      "\<forall>t \<in> set ts. \<exists>before after. requests st' = requests s @ before
                   @ promptRequest (getImageBase64 E s imageId) t # after"
    by blast
  have "\<exists>before after. requests st' = requests st @ before
                   @ promptRequest (getImageBase64 E st imageId) t # after"
    if t: "t \<in> set (a # ts)" for t
  proof (cases "t \<in> set ts")
    case True
    with st'(2) obtain before after where
      "requests st' = requests s @ before @ promptRequest (getImageBase64 E s imageId) t # after"
      by blast
    then have "requests st' = requests st
                 @ (promptRequest (getImageBase64 E st imageId) a # rest @ before)
                 @ promptRequest (getImageBase64 E st imageId) t # after"
      by (simp add: s)
    then show ?thesis by blast
  next
    case False
    with t have ta: "t = a" by simp
    have "\<exists>more. requests st' = requests s @ more"
    proof (cases ts)
      case Nil
      with st'(1) show ?thesis by simp
    next
      case (Cons b bs)
      with st'(2) show ?thesis by fastforce
    qed
    then obtain more where "requests st' = requests s @ more" ..
    then have "requests st' = requests st @ []
                 @ promptRequest (getImageBase64 E st imageId) t # (rest @ more)"
      by (simp add: s ta)
    then show ?thesis by blast
  qed
  with s(1) st'(1) show ?case by simp
qed

subsection \<open>The task list holds each prompt once\<close>

lemma mapSet_keys:
  "map fst (mapSet m k v) = (if k \<in> fst ` set m then map fst m else map fst m @ [k])"
proof (induction m)
  case Nil
  show ?case by simp
next
  case (Cons e m)
  obtain k' v' where e: "e = (k', v')" by (cases e)
  show ?case
  proof (cases "k' = k")
    case True
    then show ?thesis by (simp add: e)
  next
    case False
    with Cons show ?thesis by (simp add: e)
  qed
qed

lemma mapSet_set: "set (mapSet m k v) \<subseteq> insert (k, v) (set m)"
proof (induction m)
  case Nil
  show ?case by simp
next
  case (Cons e m)
  obtain k' v' where e: "e = (k', v')" by (cases e)
  from Cons show ?case by (cases "k' = k") (auto simp: e)
qed

lemma mapSet_keyed:
  assumes "distinct (map fst m) \<and> (\<forall>e \<in> set m. pid (snd e) = fst e)" "pid v = k"
  shows "distinct (map fst (mapSet m k v)) \<and> (\<forall>e \<in> set (mapSet m k v). pid (snd e) = fst e)"
proof
  from assms(1) show "distinct (map fst (mapSet m k v))"
    by (simp add: mapSet_keys)
  show "\<forall>e \<in> set (mapSet m k v). pid (snd e) = fst e"
  proof
    fix e
    assume "e \<in> set (mapSet m k v)"
    with mapSet_set [of m k v] have "e = (k, v) \<or> e \<in> set m" by blast
    with assms show "pid (snd e) = fst e" by auto
  qed
qed

lemma mapSet_not_empty [simp]: "mapSet m k v \<noteq> []"
proof (cases m)
  case Nil
  then show ?thesis by simp
next
  case (Cons e m')
  obtain k' v' where "e = (k', v')" by (cases e)
  with Cons show ?thesis by simp
qed

lemma fold_mapSet_not_empty:
  "ps \<noteq> [] \<or> m \<noteq> [] \<Longrightarrow> fold (\<lambda>p m. mapSet m (pid p) p) ps m \<noteq> []"
  by (induction ps arbitrary: m) simp_all

lemma requeueParent_keyed:
  assumes "distinct (map fst m) \<and> (\<forall>e \<in> set m. pid (snd e) = fst e)"
  shows "distinct (map fst (requeueParent st imageId c m))
       \<and> (\<forall>e \<in> set (requeueParent st imageId c m). pid (snd e) = fst e)"
  using assms mapSet_keyed [OF assms refl]
  by (simp add: requeueParent_eq split: option.splits)

lemma requeueParent_not_empty: "m \<noteq> [] \<Longrightarrow> requeueParent st imageId c m \<noteq> []"
  by (simp add: requeueParent_eq split: option.splits)

lemma fold_requeueParent_not_empty:
  "m \<noteq> [] \<Longrightarrow> fold (requeueParent st imageId) cs m \<noteq> []"
  by (induction cs arbitrary: m) (simp_all add: requeueParent_not_empty)

lemma tasksToRun_distinct: "distinct (map pid (tasksToRun st imageId))"
proof -
  have a: "distinct (map fst (fold (\<lambda>p m. mapSet m (pid p) p) ps m))
           \<and> (\<forall>e \<in> set (fold (\<lambda>p m. mapSet m (pid p) p) ps m). pid (snd e) = fst e)"
    if "distinct (map fst m) \<and> (\<forall>e \<in> set m. pid (snd e) = fst e)" for ps m
    using that
  proof (induction ps arbitrary: m)
    case Nil
    then show ?case by simp
  next
    case (Cons p ps)
    from mapSet_keyed [OF Cons.prems refl, of p]
    have "distinct (map fst (mapSet m (pid p) p))
          \<and> (\<forall>e \<in> set (mapSet m (pid p) p). pid (snd e) = fst e)" .
    from Cons.IH [OF this] show ?case by simp
  qed
  have b: "distinct (map fst (fold (requeueParent st imageId) cs m))
           \<and> (\<forall>e \<in> set (fold (requeueParent st imageId) cs m). pid (snd e) = fst e)"
    if "distinct (map fst m) \<and> (\<forall>e \<in> set m. pid (snd e) = fst e)" for cs m
    using that
  proof (induction cs arbitrary: m)
    case Nil
    then show ?case by simp
  next
    case (Cons c cs)
    from requeueParent_keyed [OF Cons.prems, of st imageId c]
    have "distinct (map fst (requeueParent st imageId c m))
          \<and> (\<forall>e \<in> set (requeueParent st imageId c m). pid (snd e) = fst e)" .
    from Cons.IH [OF this] show ?case by simp
  qed
  have c: "map pid (map snd m) = map fst m" if "\<forall>e \<in> set m. pid (snd e) = fst e" for m
    using that by (induction m) auto
  define m where "m = fold (requeueParent st imageId)
     (filter (\<lambda>p. truthy (parentId p)) (filter (\<lambda>p. isPending st imageId (pid p)) (prompts st)))
     (fold (\<lambda>p m. mapSet m (pid p) p)
        (filter (\<lambda>p. \<not> truthy (parentId p))
           (filter (\<lambda>p. isPending st imageId (pid p)) (prompts st))) [])"
  have k: "distinct (map fst m) \<and> (\<forall>e \<in> set m. pid (snd e) = fst e)"
    unfolding m_def by (intro a b) simp
  then have "map pid (map snd m) = map fst m" by (intro c) blast
  with k have "distinct (map pid (map snd m))" by (simp only:)
  then show ?thesis
    by (simp add: tasksToRun_def Let_def m_def)
qed

text \<open>A pending prompt that is top-level, or whose parent has succeeded, makes a task.\<close>

lemma tasksToRun_not_empty:
  assumes p: "p \<in> set (prompts st)" "isPending st imageId (pid p)"
    and c: "\<not> truthy (parentId p) \<or> parentSucceeded st imageId p"
  shows "tasksToRun st imageId \<noteq> []"
proof (cases "truthy (parentId p)")
  case False
  with p have "filter (\<lambda>p. \<not> truthy (parentId p))
                 (filter (\<lambda>p. isPending st imageId (pid p)) (prompts st)) \<noteq> []"
    by (auto simp: filter_empty_conv)
  then have "fold (\<lambda>p m. mapSet m (pid p) p)
               (filter (\<lambda>p. \<not> truthy (parentId p))
                  (filter (\<lambda>p. isPending st imageId (pid p)) (prompts st))) [] \<noteq> []"
    by (intro fold_mapSet_not_empty) simp
  then show ?thesis
    by (simp add: tasksToRun_def Let_def fold_requeueParent_not_empty)
next
  case True
  with c have s: "parentSucceeded st imageId p" by simp
  then obtain par parent where par: "parentId p = Some par"
    and f: "find (\<lambda>q. pid q = par) (prompts st) = Some parent"
    by (auto simp: parentSucceeded_def split: option.splits)
  from p True have "p \<in> set (filter (\<lambda>p. truthy (parentId p))
                      (filter (\<lambda>p. isPending st imageId (pid p)) (prompts st)))"
    by simp
  from fold_requeueParent_add [OF f par s this]
  have "(par, parent) \<in> set (fold (requeueParent st imageId)
          (filter (\<lambda>p. truthy (parentId p))
             (filter (\<lambda>p. isPending st imageId (pid p)) (prompts st)))
          (fold (\<lambda>p m. mapSet m (pid p) p)
             (filter (\<lambda>p. \<not> truthy (parentId p))
                (filter (\<lambda>p. isPending st imageId (pid p)) (prompts st))) []))" .
  then have "fold (requeueParent st imageId)
          (filter (\<lambda>p. truthy (parentId p))
             (filter (\<lambda>p. isPending st imageId (pid p)) (prompts st)))
          (fold (\<lambda>p m. mapSet m (pid p) p)
             (filter (\<lambda>p. \<not> truthy (parentId p))
                (filter (\<lambda>p. isPending st imageId (pid p)) (prompts st))) []) \<noteq> []"
    by (rule_tac notI) (simp only: list.set empty_iff)
  then show ?thesis
    unfolding tasksToRun_def Let_def by simp
qed

lemma find_distinct:
  "distinct (map pid ps) \<Longrightarrow> p \<in> set ps \<Longrightarrow> find (\<lambda>q. pid q = pid p) ps = Some p"
  by (induction ps) (auto simp: image_iff)

lemma independent_no_ancestor:
  assumes "distinct (map pid all)" "p \<in> set all" "parentId p = None"
  shows "\<not> descendant all y (pid p)"
proof
  assume "descendant all y (pid p)"
  then obtain q where q: "q \<in> set all" "pid q = pid p" "parentId q \<noteq> None"
    by (auto dest: descendant_target)
  from assms(1) have "inj_on pid (set all)" by (simp add: distinct_map)
  with q(1,2) assms(2) have "q = p" by (auto dest: inj_onD)
  with q(3) assms(3) show False by simp
qed

subsection \<open>The flow in two pieces\<close>

text \<open>The two pieces, run one after the other, are \<open>runSingleAnalysisFlow\<close>.\<close>

lemma runSingleAnalysisFlow_split:
  assumes "selectedImageId st = Some imageId" "imageId \<noteq> []" "ptype prompt \<noteq> Text"
    and "findDescendants (length (prompts st)) (prompts st) (pid prompt) (prompts st) = Some ds"
  shows "runSingleAnalysisFlow E prompt st =
           Some (runSingleAnalysisFlow_settle E prompt imageId
                   (fetchJson E (length (requests st))
                      (SingleReq prompt (getImageBase64 E st imageId)))
                   (runSingleAnalysisFlow_begin E prompt imageId ds st))"
proof -
  define st1 where "st1 = (if ds \<noteq> [] then clearHistories imageId ds st else st)"
  obtain s img where b: "runSinglePrompt_begin E prompt imageId st1 = (s, img)"
    by (cases "runSinglePrompt_begin E prompt imageId st1")
  note e = begin_effect [OF b]
  have f: "requests st1 = requests st" "getImageBase64 E st1 = getImageBase64 E st"
    by (simp_all add: st1_def)
  show ?thesis
    using assms
    by (simp add: runSingleAnalysisFlow_def runSingleAnalysisFlow_settle_def
          runSingleAnalysisFlow_begin_def requestSent_def runSinglePrompt_def Let_def
          st1_def [symmetric] b e(1,2) f promptRequest_def split: prod.splits option.splits)
qed

subsection \<open>Evaluated examples\<close>

lemma lower_Yes: "includes_str (toLowerCase ''Yes.'') ''yes''"
  by code_simp

lemma no_digit_unsure: "list_all (\<lambda>c. \<not> isDigit c) ''unsure''"
  by code_simp

lemma showNat_500: "showNat 500 = ''500''"
  by code_simp

lemma stripThinking_Yes: "stripThinking ''Yes'' = ''Yes''"
  by code_simp

text \<open>
  When the opening marker arrives in one piece the decoder hides the thinking block, also
  with the closing marker split over two deltas; and the one-shot \<open>stripThinking\<close> of the
  non-streaming path removes the block from the whole text.
\<close>

lemma decodeStream_whole_marker:
  "visibleText (decodeStream decoder0
     [Delta ''<think>'', Delta ''hidden reasoning</thi'', Delta ''nk> Hello'', Delta '', world''])
   = ''Hello, world''"
  by code_simp

lemma stripThinking_whole_text:
  "stripThinking ''<think>hidden reasoning</think> Hello, world'' = ''Hello, world''"
  by code_simp

text \<open>The parent pointers of the two example prompts have no cycle.\<close>

lemma two_prompts_acyclic: "\<not> descendant [yesNoParent, yesChild] y y"
  by (rule acyclic_search) code_simp

section \<open>The claims\<close>

text \<open>
  C1. When a Yes/No prompt has succeeded with the text \<open>d\<close>, the children requested next
  are, in the order of the prompt list and each once, exactly the prompts whose parent is
  this prompt, whose condition is \<open>yes\<close> if the lower-cased \<open>d\<close> contains \<open>yes\<close> and \<open>no\<close>
  otherwise, and whose history for the image is empty. No other request is sent, so a
  child with the other condition is not executed.
\<close>

theorem C1_yesno_children:
  assumes "ptype prompt = YesNo" and "status result = success" and "data result = Str d"
  shows "requests (handlePromptCompletion E prompt result imageId st) =
           requests st @ map (promptRequest (getImageBase64 E st imageId))
             (filter (\<lambda>c. parentId c = Some (pid prompt)
                         \<and> condition c = Some (if includes_str (toLowerCase d) ''yes'' then yes else no)
                         \<and> isPending st imageId (pid c)) (prompts st))"
  using assms
  by (simp add: handlePromptCompletion_YesNo runChildren_requests yesNoChildrenToRun_def
        conditionMet_lower)

theorem C1_yesno_children_witness:
  "ptype yesNoParent = YesNo
   \<and> status (succeeded ''p'' (Str ''Yes.'')) = success
   \<and> data (succeeded ''p'' (Str ''Yes.'')) = Str ''Yes.''
   \<and> requests (handlePromptCompletion (replyEnv ''3'') yesNoParent
        (succeeded ''p'' (Str ''Yes.'')) ''img''
        (initialState [yesNoParent, yesChild, noChild] ''img''))
      = [SingleReq yesChild ''data:img'']"
  using C1_yesno_children [of yesNoParent "succeeded ''p'' (Str ''Yes.'')" "''Yes.''"
      "replyEnv ''3''" "''img''" "initialState [yesNoParent, yesChild, noChild] ''img''"]
  by (simp add: yesNoParent_def mkPrompt_def initialState_def replyEnv_def yesChild_def
        noChild_def succeeded_def promptRequest_def getImageBase64_def isPending_def
        historyOf_def imageResults_def lower_Yes)

text \<open>
  C2. Fed the deltas \<open><thi\<close>, \<open>nk>hidden reasoning</thi\<close>, \<open>nk> Hello\<close>, \<open>, world\<close>, the
  decoder decides its state on the first delta: \<open><thi\<close> trims to a non-empty text that
  does not start with the opening marker, so the decoder goes to \<open>streaming\<close> and every
  delta is emitted as it came. The visible text is the whole input, thinking block
  included, and not \<open>Hello, world\<close>.
\<close>

theorem C2_split_marker_leaks:
  "decodeStream decoder0
     [Delta ''<thi'', Delta ''nk>hidden reasoning</thi'', Delta ''nk> Hello'', Delta '', world'']
   = [EvDelta ''<thi'', EvDelta ''nk>hidden reasoning</thi'', EvDelta ''nk> Hello'',
      EvDelta '', world'']
   \<and> visibleText (decodeStream decoder0
     [Delta ''<thi'', Delta ''nk>hidden reasoning</thi'', Delta ''nk> Hello'', Delta '', world''])
   = ''<think>hidden reasoning</think> Hello, world''"
  by (simp add: decoder0_def feedDelta_def trim_def trimStart_def trimEnd_def isWhiteSpace_def)

text \<open>
  C3. When a detection prompt has succeeded: with no detection nothing happens at all;
  with the detections \<open>bs\<close>, the requests sent are, for each pending direct child in turn,
  one per detection in the order of \<open>bs\<close>, and afterwards the history of each of these
  children is a single success entry whose results are as many as the detections and
  carry, position by position, the detection they belong to.
\<close>

theorem C3_fan_out:
  assumes "ptype prompt = BoundingBox" and "status result = success" and "data result = Boxes bs"
  shows "(bs = [] \<longrightarrow> handlePromptCompletion E prompt result imageId st = st)
       \<and> (bs \<noteq> [] \<longrightarrow>
            requests (handlePromptCompletion E prompt result imageId st)
              = requests st
                @ concat (map (\<lambda>c. map (\<lambda>b. ChildReq c b (getImageBase64 E st imageId)) bs)
                            (filter (\<lambda>c. parentId c = Some (pid prompt)
                                        \<and> isPending st imageId (pid c)) (prompts st)))
            \<and> (\<forall>c \<in> set (prompts st).
                  parentId c = Some (pid prompt) \<and> isPending st imageId (pid c) \<longrightarrow>
                  (\<exists>rs. historyOf (handlePromptCompletion E prompt result imageId st) imageId (pid c)
                         = [\<lparr>promptId = pid c, status = success, data = ChildResults rs,
                              error_text = None\<rparr>]
                       \<and> length rs = length bs \<and> map parentBox rs = bs)))"
proof (intro conjI impI)
  assume "bs = []"
  with assms show "handlePromptCompletion E prompt result imageId st = st"
    by (simp add: handlePromptCompletion_def)
next
  assume ne: "bs \<noteq> []"
  define cs where "cs = filter (\<lambda>c. parentId c = Some (pid prompt)
                                      \<and> isPending st imageId (pid c)) (prompts st)"
  define img where "img = getImageBase64 E st imageId"
  define st3 where "st3 = st\<lparr>imageBase64s := (imageBase64s st)(imageId \<mapsto> img)\<rparr>"
  have h: "handlePromptCompletion E prompt result imageId st
             = (if cs = [] then st else fold (runBboxChild E imageId img bs) cs st3)"
    using assms ne
    by (simp add: handlePromptCompletion_def bboxChildrenToRun_def Let_def cs_def img_def st3_def)
  show "requests (handlePromptCompletion E prompt result imageId st)
          = requests st @ concat (map (\<lambda>c. map (\<lambda>b. ChildReq c b img) bs) cs)"
    by (simp add: h fold_runBboxChild_requests st3_def)
  show "\<forall>c \<in> set (prompts st).
          parentId c = Some (pid prompt) \<and> isPending st imageId (pid c) \<longrightarrow>
          (\<exists>rs. historyOf (handlePromptCompletion E prompt result imageId st) imageId (pid c)
                 = [\<lparr>promptId = pid c, status = success, data = ChildResults rs, error_text = None\<rparr>]
               \<and> length rs = length bs \<and> map parentBox rs = bs)"
  proof (intro ballI impI)
    fix c
    assume "c \<in> set (prompts st)"
      and "parentId c = Some (pid prompt) \<and> isPending st imageId (pid c)"
    then have c: "c \<in> set cs" by (simp add: cs_def)
    then have "cs \<noteq> []" by auto
    with fold_runBboxChild_history [OF c, of E imageId img bs st3]
    show "\<exists>rs. historyOf (handlePromptCompletion E prompt result imageId st) imageId (pid c)
                 = [\<lparr>promptId = pid c, status = success, data = ChildResults rs, error_text = None\<rparr>]
               \<and> length rs = length bs \<and> map parentBox rs = bs"
      by (auto simp: h childSuccess_def)
  qed
qed

theorem C3_fan_out_witness:
  "ptype bboxParent = BoundingBox
   \<and> status (succeeded ''d'' (Boxes [catBox, dogBox])) = success
   \<and> data (succeeded ''d'' (Boxes [catBox, dogBox])) = Boxes [catBox, dogBox]
   \<and> requests (handlePromptCompletion (replyEnv ''Yes'') bboxParent
        (succeeded ''d'' (Boxes [catBox, dogBox])) ''img''
        (initialState [bboxParent, bboxKid] ''img''))
      = [ChildReq bboxKid catBox ''data:img'', ChildReq bboxKid dogBox ''data:img'']
   \<and> (\<exists>rs. historyOf (handlePromptCompletion (replyEnv ''Yes'') bboxParent
               (succeeded ''d'' (Boxes [catBox, dogBox])) ''img''
               (initialState [bboxParent, bboxKid] ''img'')) ''img'' ''k''
             = [\<lparr>promptId = ''k'', status = success, data = ChildResults rs, error_text = None\<rparr>]
           \<and> length rs = 2 \<and> map parentBox rs = [catBox, dogBox])"
proof -
  let ?st = "initialState [bboxParent, bboxKid] ''img''"
  have h: "ptype bboxParent = BoundingBox"
    "status (succeeded ''d'' (Boxes [catBox, dogBox])) = success"
    "data (succeeded ''d'' (Boxes [catBox, dogBox])) = Boxes [catBox, dogBox]"
    by (simp_all add: bboxParent_def mkPrompt_def succeeded_def)
  have pending: "isPending ?st ''img'' i" for i
    by (simp add: isPending_def historyOf_def imageResults_def initialState_def)
  have kids: "filter (\<lambda>c. parentId c = Some (pid bboxParent) \<and> isPending ?st ''img'' (pid c))
                (prompts ?st) = [bboxKid]"
    by (simp add: isPending_def historyOf_def imageResults_def initialState_def bboxParent_def
          bboxKid_def mkPrompt_def)
  have img: "getImageBase64 (replyEnv ''Yes'') ?st ''img'' = ''data:img''"
    by (simp add: getImageBase64_def initialState_def replyEnv_def)
  have kid: "bboxKid \<in> set (prompts ?st)" "parentId bboxKid = Some (pid bboxParent)"
    "pid bboxKid = ''k''"
    by (simp_all add: initialState_def bboxParent_def bboxKid_def mkPrompt_def)
  note t = C3_fan_out [OF h, of "replyEnv ''Yes''" "''img''" ?st, unfolded kids img]
  from t have r: "requests (handlePromptCompletion (replyEnv ''Yes'') bboxParent
        (succeeded ''d'' (Boxes [catBox, dogBox])) ''img'' ?st)
      = [ChildReq bboxKid catBox ''data:img'', ChildReq bboxKid dogBox ''data:img'']"
    by (simp add: initialState_def)
  from t have "\<forall>c \<in> set (prompts ?st).
          parentId c = Some (pid bboxParent) \<and> isPending ?st ''img'' (pid c) \<longrightarrow>
          (\<exists>rs. historyOf (handlePromptCompletion (replyEnv ''Yes'') bboxParent
               (succeeded ''d'' (Boxes [catBox, dogBox])) ''img'' ?st) ''img'' (pid c)
             = [\<lparr>promptId = pid c, status = success, data = ChildResults rs, error_text = None\<rparr>]
           \<and> length rs = length [catBox, dogBox] \<and> map parentBox rs = [catBox, dogBox])"
    by simp
  from bspec [OF this kid(1)] kid(2) pending [of "pid bboxKid"]
  have "\<exists>rs. historyOf (handlePromptCompletion (replyEnv ''Yes'') bboxParent
               (succeeded ''d'' (Boxes [catBox, dogBox])) ''img'' ?st) ''img'' (pid bboxKid)
             = [\<lparr>promptId = pid bboxKid, status = success, data = ChildResults rs, error_text = None\<rparr>]
           \<and> length rs = length [catBox, dogBox] \<and> map parentBox rs = [catBox, dogBox]"
    by simp
  with r h show ?thesis
    by (simp add: kid eval_nat_numeral)
qed

text \<open>
  C4, as the code has it. When a score prompt has succeeded with the number \<open>d\<close>, the
  requests sent next are, in the order of the prompt list and each once, exactly those
  for the prompts whose parent is this prompt, whose history for the image is empty, and
  whose threshold \<open>v\<close> satisfies \<open>d > v\<close> under the operator \<open>above\<close> or \<open>d < v\<close> under the
  operator \<open>below\<close>. No other request is sent: a child that already has a history is not
  executed whatever \<open>d\<close> is, and since neither \<open>d > d\<close> nor \<open>d < d\<close> holds, a child whose
  threshold equals \<open>d\<close> is not executed under either operator.
\<close>

theorem C4_score_children:
  assumes "ptype prompt = Score" and "status result = success" and "data result = Num d"
  shows "requests (handlePromptCompletion E prompt result imageId st) =
           requests st @ map (promptRequest (getImageBase64 E st imageId))
             (filter (\<lambda>c. parentId c = Some (pid prompt) \<and> isPending st imageId (pid c)
                         \<and> (\<exists>v. scoreConditionValue c = Some v
                                \<and> (scoreConditionOperator c = Some above \<and> js_gt d v
                                    \<or> scoreConditionOperator c = Some below \<and> js_lt d v)))
                (prompts st))
         \<and> \<not> js_gt d d \<and> \<not> js_lt d d"
proof -
  have "scoreChildrenToRun prompt d imageId st =
          filter (\<lambda>c. parentId c = Some (pid prompt) \<and> isPending st imageId (pid c)
                      \<and> (\<exists>v. scoreConditionValue c = Some v
                             \<and> (scoreConditionOperator c = Some above \<and> js_gt d v
                                 \<or> scoreConditionOperator c = Some below \<and> js_lt d v)))
            (prompts st)"
    unfolding scoreChildrenToRun_def
    by (rule filter_cong) (auto split: option.splits)
  with assms show ?thesis
    by (simp add: handlePromptCompletion_Score runChildren_requests js_gt_def)
qed

theorem C4_score_children_witness:
  "ptype scoreParent = Score
   \<and> status (succeeded ''s'' (Num (Fin 7))) = success
   \<and> data (succeeded ''s'' (Num (Fin 7))) = Num (Fin 7)
   \<and> js_gt (Fin 7) (Fin 5) \<and> \<not> js_lt (Fin 7) (Fin 5)
   \<and> requests (handlePromptCompletion (replyEnv ''fine'') scoreParent
        (succeeded ''s'' (Num (Fin 7))) ''img''
        (initialState [scoreParent, aboveChild, belowChild] ''img''))
      = [StreamReq aboveChild ''data:img'']"
  using C4_score_children [of scoreParent "succeeded ''s'' (Num (Fin 7))" "Fin 7"
      "replyEnv ''fine''" "''img''" "initialState [scoreParent, aboveChild, belowChild] ''img''"]
  by (simp add: scoreParent_def aboveChild_def belowChild_def mkPrompt_def initialState_def
        replyEnv_def succeeded_def promptRequest_def getImageBase64_def isPending_def
        historyOf_def imageResults_def js_gt_def)

text \<open>
  C4 as stated fails for a child that already has a history: the score \<open>7\<close> is above the
  child's threshold \<open>5\<close>, and still no request is sent for it.
\<close>

theorem C4_answered_child_skipped:
  "parentId aboveChild = Some (pid scoreParent)
   \<and> scoreConditionOperator aboveChild = Some above
   \<and> scoreConditionValue aboveChild = Some (Fin 5)
   \<and> js_gt (Fin 7) (Fin 5)
   \<and> requests (handlePromptCompletion (replyEnv ''fine'') scoreParent
        (succeeded ''s'' (Num (Fin 7))) ''img'' answeredState) = []"
  by (simp add: handlePromptCompletion_Score runChildren_requests
        scoreParent_def aboveChild_def mkPrompt_def initialState_def answeredState_def
        succeeded_def scoreChildrenToRun_def isPending_def historyOf_def imageResults_def
        js_gt_def)

text \<open>
  C5, as the code has it. Let an image be selected, the prompt ids be distinct and the parent
  pointers free of cycles, and let an independent prompt, whose latest result for the image
  is a success, have a pending child. Then the prompt is a task of \<open>runPendingAnalysis\<close>.
  The tasks before it leave its history as it was. Its own flow sends a new request for
  it, which appends one entry \<open>x\<close> to its history, and only then runs the completion
  handler, which evaluates the children, on that new entry. The tasks after it leave its
  history alone again, so the whole run returns with the new request in its log and with
  exactly the entry \<open>x\<close> appended to the history of the prompt.
\<close>

theorem C5_parent_rerun:
  assumes "selectedImageId st = Some imageId" and "imageId \<noteq> []"
    and "distinct (map pid (prompts st))"
    and "\<forall>y. \<not> descendant (prompts st) y y"
    and "parent \<in> set (prompts st)" and "parentId parent = None" and "pid parent \<noteq> []"
    and "historyOf st imageId (pid parent) \<noteq> []"
    and "status (last (historyOf st imageId (pid parent))) = success"
    and "child \<in> set (prompts st)" and "parentId child = Some (pid parent)"
    and "isPending st imageId (pid child)"
  shows "\<exists>before after s ds s2 x st' r0 r.
           tasksToRun st imageId = before @ parent # after
         \<and> runTasks E before st = Some s
         \<and> requests s = requests st @ r0
         \<and> historyOf s imageId (pid parent) = historyOf st imageId (pid parent)
         \<and> findDescendants (length (prompts s)) (prompts s) (pid parent) (prompts s) = Some ds
         \<and> s2 = fst (runSinglePrompt E parent imageId
                       (if ds \<noteq> [] then clearHistories imageId ds s else s))
         \<and> requests s2 = requests s @ [promptRequest (getImageBase64 E st imageId) parent]
         \<and> historyOf s2 imageId (pid parent) = historyOf st imageId (pid parent) @ [x]
         \<and> runSingleAnalysisFlow E parent s = Some (handlePromptCompletion E parent x imageId s2)
         \<and> runTasks E after (handlePromptCompletion E parent x imageId s2) = Some st'
         \<and> runPendingAnalysis E st = Some st'
         \<and> requests st' = requests s2 @ r
         \<and> historyOf st' imageId (pid parent) = historyOf st imageId (pid parent) @ [x]"
proof -
  let ?H = "historyOf st imageId (pid parent)"
  let ?req = "promptRequest (getImageBase64 E st imageId) parent"
  from assms(3,5) have f: "find (\<lambda>q. pid q = pid parent) (prompts st) = Some parent"
    by (rule find_distinct)
  from assms(10,12,11,7) f assms(8,9) have t: "parent \<in> set (tasksToRun st imageId)"
    by (rule tasksToRun_parent)
  then obtain before after where ba: "tasksToRun st imageId = before @ parent # after"
    by (auto dest: split_list)
  from tasksToRun_distinct [of st imageId]
  have "pid parent \<notin> pid ` set before" "pid parent \<notin> pid ` set after"
    unfolding ba by simp_all
  then have d: "\<forall>t \<in> set before \<union> set after. pid t \<noteq> pid parent"
    by (auto simp: image_iff)
  have na: "\<not> descendant (prompts st) y (pid parent)" for y
    using assms(3,5,6) by (rule independent_no_ancestor)
  from assms(8) have np: "\<not> isPending st imageId (pid parent)"
    by (simp add: isPending_def)
  from d na have tb: "\<forall>t \<in> set before. pid t \<noteq> pid parent
                        \<and> \<not> descendant (prompts st) (pid t) (pid parent)"
    by simp
  from runTasks_frame [OF assms(1,2,4) tb np, of E] obtain s r0 where
    s: "runTasks E before st = Some s" "historyOf s imageId (pid parent) = ?H"
       "prompts s = prompts st" "selectedImageId s = selectedImageId st"
       "getImageBase64 E s = getImageBase64 E st" "requests s = requests st @ r0"
    by blast
  from findDescendants_acyclic [OF assms(4), of "pid parent"] obtain ds where
    ds: "findDescendants (length (prompts s)) (prompts s) (pid parent) (prompts s) = Some ds"
    unfolding s(3) by blast
  define s2 where "s2 = fst (runSinglePrompt E parent imageId
                       (if ds \<noteq> [] then clearHistories imageId ds s else s))"
  from s(4) assms(1) have sel: "selectedImageId s = Some imageId" by simp
  from runSingleAnalysisFlow_parts [OF sel assms(2) ds s2_def] obtain x where
    x: "historyOf s2 imageId (pid parent) = ?H @ [x]"
       "requests s2 = requests s @ [?req]"
       "runSingleAnalysisFlow E parent s = Some (handlePromptCompletion E parent x imageId s2)"
    unfolding s(2,5) by blast
  define s' where "s' = handlePromptCompletion E parent x imageId s2"
  from runSingleAnalysisFlow_effect [OF sel assms(2) ds, of E] x(3)
  have e: "prompts s' = prompts st" "selectedImageId s' = Some imageId"
    unfolding s'_def using s(3) sel by auto
  from x(1) have np2: "\<not> isPending s2 imageId (pid parent)"
    by (simp add: isPending_def)
  with handlePromptCompletion_frame [of E parent x imageId s2] obtain rest where
    h': "historyOf s' imageId (pid parent) = ?H @ [x]" "requests s' = requests s2 @ rest"
    unfolding s'_def x(1) [symmetric] by blast
  from h'(1) have np': "\<not> isPending s' imageId (pid parent)"
    by (simp add: isPending_def)
  from d na have ta: "\<forall>t \<in> set after. pid t \<noteq> pid parent
                        \<and> \<not> descendant (prompts s') (pid t) (pid parent)"
    by (simp add: e(1))
  from assms(4) have ac': "\<forall>y. \<not> descendant (prompts s') y y" by (simp add: e(1))
  from runTasks_frame [OF e(2) assms(2) ac' ta np', of E] obtain st' r1 where
    st': "runTasks E after s' = Some st'"
         "historyOf st' imageId (pid parent) = historyOf s' imageId (pid parent)"
         "requests st' = requests s' @ r1"
    by blast
  have "runTasks E (tasksToRun st imageId) st = Some st'"
    by (simp add: ba runTasks_append s(1) x(3) st'(1) s'_def [symmetric])
  moreover from t have "tasksToRun st imageId \<noteq> []" by auto
  moreover from assms(10,12) have "filter (\<lambda>p. isPending st imageId (pid p)) (prompts st) \<noteq> []"
    by (auto simp: filter_empty_conv)
  ultimately have run: "runPendingAnalysis E st = Some st'"
    using assms(1,2) by (simp add: runPendingAnalysis_def)
  have q: "requests st' = requests s2 @ (rest @ r1)"
    by (simp add: st'(3) h'(2))
  have h: "historyOf st' imageId (pid parent) = ?H @ [x]"
    by (simp add: st'(2) h'(1))
  note all = ba s(1,6,2) ds s2_def x(2,1,3) st'(1) [unfolded s'_def] run q h
  show ?thesis
    by (intro exI conjI) (rule all)+
qed

theorem C5_parent_rerun_witness:
  "selectedImageId answeredParentState = Some ''img''
   \<and> distinct (map pid (prompts answeredParentState))
   \<and> yesNoParent \<in> set (prompts answeredParentState) \<and> parentId yesNoParent = None
   \<and> historyOf answeredParentState ''img'' (pid yesNoParent) = [succeeded ''p'' (Str ''Yes'')]
   \<and> yesChild \<in> set (prompts answeredParentState)
   \<and> parentId yesChild = Some (pid yesNoParent)
   \<and> isPending answeredParentState ''img'' (pid yesChild)
   \<and> (\<exists>before after s ds s2 x st' r0 r.
           tasksToRun answeredParentState ''img'' = before @ yesNoParent # after
         \<and> runTasks (replyEnv ''Yes'') before answeredParentState = Some s
         \<and> requests s = requests answeredParentState @ r0
         \<and> historyOf s ''img'' (pid yesNoParent) = [succeeded ''p'' (Str ''Yes'')]
         \<and> findDescendants (length (prompts s)) (prompts s) (pid yesNoParent) (prompts s) = Some ds
         \<and> s2 = fst (runSinglePrompt (replyEnv ''Yes'') yesNoParent ''img''
                       (if ds \<noteq> [] then clearHistories ''img'' ds s else s))
         \<and> requests s2 = requests s @ [SingleReq yesNoParent ''data:img'']
         \<and> historyOf s2 ''img'' (pid yesNoParent) = [succeeded ''p'' (Str ''Yes''), x]
         \<and> runSingleAnalysisFlow (replyEnv ''Yes'') yesNoParent s
             = Some (handlePromptCompletion (replyEnv ''Yes'') yesNoParent x ''img'' s2)
         \<and> runTasks (replyEnv ''Yes'') after
              (handlePromptCompletion (replyEnv ''Yes'') yesNoParent x ''img'' s2) = Some st'
         \<and> runPendingAnalysis (replyEnv ''Yes'') answeredParentState = Some st'
         \<and> requests st' = requests s2 @ r
         \<and> historyOf st' ''img'' (pid yesNoParent) = [succeeded ''p'' (Str ''Yes''), x])"
proof -
  let ?st = answeredParentState
  have ps: "prompts ?st = [yesNoParent, yesChild]"
    by (simp add: answeredParentState_def initialState_def)
  have h: "selectedImageId ?st = Some ''img''" "''img'' \<noteq> []"
    "distinct (map pid (prompts ?st))"
    "\<forall>y. \<not> descendant (prompts ?st) y y"
    "yesNoParent \<in> set (prompts ?st)" "parentId yesNoParent = None" "pid yesNoParent \<noteq> []"
    by (simp_all add: ps two_prompts_acyclic)
       (simp_all add: answeredParentState_def initialState_def yesChild_def yesNoParent_def
          mkPrompt_def)
  have hist: "historyOf ?st ''img'' (pid yesNoParent) = [succeeded ''p'' (Str ''Yes'')]"
    by (simp add: answeredParentState_def historyOf_def imageResults_def yesNoParent_def
          mkPrompt_def)
  have s: "historyOf ?st ''img'' (pid yesNoParent) \<noteq> []"
    "status (last (historyOf ?st ''img'' (pid yesNoParent))) = success"
    by (simp_all add: hist succeeded_def)
  have c: "yesChild \<in> set (prompts ?st)" "parentId yesChild = Some (pid yesNoParent)"
    "isPending ?st ''img'' (pid yesChild)"
    by (simp_all add: answeredParentState_def initialState_def yesChild_def yesNoParent_def
          mkPrompt_def isPending_def historyOf_def imageResults_def)
  have img: "promptRequest (getImageBase64 (replyEnv ''Yes'') ?st ''img'') yesNoParent
               = SingleReq yesNoParent ''data:img''"
    by (simp add: promptRequest_def getImageBase64_def answeredParentState_def initialState_def
          replyEnv_def yesNoParent_def mkPrompt_def)
  note t = C5_parent_rerun [OF h s c, of "replyEnv ''Yes''", unfolded hist img append_Cons append_Nil]
  from h(1,3,5,6) hist c t show ?thesis by (intro conjI)
qed

text \<open>
  C5 as stated fails: the parent \<open>p\<close> has one success entry and a pending child; after the
  run a request for \<open>p\<close> has been sent (before the one for the child) and the history of
  \<open>p\<close> has two entries.
\<close>

theorem C5_parent_requested_again:
  "historyOf answeredParentState ''img'' ''p'' = [succeeded ''p'' (Str ''Yes'')]
   \<and> requests answeredParentState = []
   \<and> map_option requests (runPendingAnalysis (replyEnv ''Yes'') answeredParentState)
      = Some [SingleReq yesNoParent ''data:img'', SingleReq yesChild ''data:img'']
   \<and> map_option (\<lambda>s. historyOf s ''img'' ''p'')
        (runPendingAnalysis (replyEnv ''Yes'') answeredParentState)
      = Some [succeeded ''p'' (Str ''Yes''), succeeded ''p'' (Str ''Yes'')]"
  by code_simp

text \<open>
  C6. The flow is started twice for the Yes/No prompt \<open>p\<close>, whose history is empty and
  which has no descendants; the second start aborts the controller of the first with the
  reason \<open>'New request initiated'\<close>, the first request is rejected with that reason, which
  is not an \<open>AbortError\<close>, and the second request is answered \<open>Yes\<close>. After the two starts
  the history of \<open>p\<close> holds two placeholders. Handling the rejection, the first attempt
  writes an entry of status \<open>error\<close> over the placeholder of the second attempt. At the end
  the history has two entries: the placeholder of the first attempt, still \<open>loading\<close>, and
  the success of the second. The first attempt has changed the history, twice.
\<close>

theorem C6_first_attempt_leaves_loading:
  "findDescendants (length (prompts cachedState)) (prompts cachedState) (pid yesNoParent)
     (prompts cachedState) = Some []
   \<and> historyOf cachedState ''img'' ''p'' = []
   \<and> aborted (runSingleAnalysisFlow_begin (replyEnv ''Yes'') yesNoParent ''img'' []
        (runSingleAnalysisFlow_begin (replyEnv ''Yes'') yesNoParent ''img'' [] cachedState)) = [0]
   \<and> historyOf (runSingleAnalysisFlow_begin (replyEnv ''Yes'') yesNoParent ''img'' []
        (runSingleAnalysisFlow_begin (replyEnv ''Yes'') yesNoParent ''img'' [] cachedState))
        ''img'' ''p''
      = [\<lparr>promptId = ''p'', status = loading, data = Null, error_text = None\<rparr>,
         \<lparr>promptId = ''p'', status = loading, data = Null, error_text = None\<rparr>]
   \<and> name abortReason \<noteq> Some ''AbortError''
   \<and> historyOf (runSingleAnalysisFlow_settle (replyEnv ''Yes'') yesNoParent ''img''
        (JRejected abortReason)
        (runSingleAnalysisFlow_begin (replyEnv ''Yes'') yesNoParent ''img'' []
           (runSingleAnalysisFlow_begin (replyEnv ''Yes'') yesNoParent ''img'' [] cachedState)))
        ''img'' ''p''
      = [\<lparr>promptId = ''p'', status = loading, data = Null, error_text = None\<rparr>,
         \<lparr>promptId = ''p'', status = error, data = Null, error_text = None\<rparr>]
   \<and> historyOf (runOneTwice (replyEnv ''Yes'') yesNoParent ''img'' []
        (JBody False ''Yes'') cachedState) ''img'' ''p''
      = [\<lparr>promptId = ''p'', status = loading, data = Null, error_text = None\<rparr>,
         succeeded ''p'' (Str ''Yes'')]"
  by code_simp




text \<open>
  C8, as the code has it. Started in any state, in particular in the one a previous run
  has left, \<open>runPendingAnalysis\<close> sends no request and changes nothing when every prompt
  pending for the selected image is a child whose parent has not succeeded (the parent is
  missing, has no result, or its latest result is not a success); in particular when no
  prompt is pending. Otherwise, when some pending prompt is top-level or has a parent whose
  latest result is a success, the run sends at least one request (the parent pointers
  being free of cycles, so that the run returns).
\<close>

theorem C8_second_run:
  assumes "selectedImageId st = Some imageId"
  shows "((\<forall>p \<in> set (prompts st). isPending st imageId (pid p) \<longrightarrow>
             truthy (parentId p) \<and> \<not> parentSucceeded st imageId p)
          \<longrightarrow> runPendingAnalysis E st = Some st)
       \<and> (imageId \<noteq> [] \<and> (\<forall>y. \<not> descendant (prompts st) y y)
          \<and> (\<exists>p \<in> set (prompts st). isPending st imageId (pid p)
                \<and> (\<not> truthy (parentId p) \<or> parentSucceeded st imageId p))
          \<longrightarrow> (\<exists>st' r rest. runPendingAnalysis E st = Some st'
                  \<and> requests st' = requests st @ r # rest))"
proof (intro conjI impI)
  assume "\<forall>p \<in> set (prompts st). isPending st imageId (pid p) \<longrightarrow>
             truthy (parentId p) \<and> \<not> parentSucceeded st imageId p"
  from assms tasksToRun_empty [OF this] show "runPendingAnalysis E st = Some st"
    by (simp add: runPendingAnalysis_def)
next
  assume a: "imageId \<noteq> [] \<and> (\<forall>y. \<not> descendant (prompts st) y y)
          \<and> (\<exists>p \<in> set (prompts st). isPending st imageId (pid p)
                \<and> (\<not> truthy (parentId p) \<or> parentSucceeded st imageId p))"
  then obtain p where p: "p \<in> set (prompts st)" "isPending st imageId (pid p)"
    "\<not> truthy (parentId p) \<or> parentSucceeded st imageId p"
    by blast
  from p have ne: "tasksToRun st imageId \<noteq> []" by (rule tasksToRun_not_empty)
  then obtain t ts where t: "tasksToRun st imageId = t # ts"
    by (cases "tasksToRun st imageId") auto
  from p(1,2) have pe: "filter (\<lambda>p. isPending st imageId (pid p)) (prompts st) \<noteq> []"
    by (auto simp: filter_empty_conv)
  from a have "\<forall>t \<in> set (tasksToRun st imageId).
      findDescendants (length (prompts st)) (prompts st) (pid t) (prompts st) \<noteq> None"
    using findDescendants_acyclic [of "prompts st"] by fastforce
  from runTasks_requests [OF assms _ this, of E] a t obtain st' before after where
    r: "runTasks E (tasksToRun st imageId) st = Some st'"
       "requests st' = requests st @ before
          @ promptRequest (getImageBase64 E st imageId) t # after"
    by fastforce
  obtain r rest where "before @ promptRequest (getImageBase64 E st imageId) t # after = r # rest"
    by (cases before) auto
  with r(2) have "requests st' = requests st @ r # rest" by simp
  moreover from assms a ne pe r(1) have "runPendingAnalysis E st = Some st'"
    by (simp add: runPendingAnalysis_def)
  ultimately show "\<exists>st' r rest. runPendingAnalysis E st = Some st'
                  \<and> requests st' = requests st @ r # rest"
    by blast
qed

text \<open>
  Both cases in the state a first run has left. When the request for the parent \<open>p\<close> has
  failed, its child stays pending under a parent that has not succeeded, and the second
  run sends nothing. When \<open>p\<close> has been answered \<open>No\<close>, its child with condition \<open>yes\<close> stays
  pending under a parent that has succeeded, and the second run sends a request.
\<close>

theorem C8_second_run_witness:
  "runPendingAnalysis failingEnv (initialState [yesNoParent, yesChild] ''img'') \<noteq> None
   \<and> selectedImageId afterFailedRun = Some ''img''
   \<and> status (last (historyOf afterFailedRun ''img'' ''p'')) = error
   \<and> isPending afterFailedRun ''img'' (pid yesChild)
   \<and> \<not> parentSucceeded afterFailedRun ''img'' yesChild
   \<and> runPendingAnalysis (replyEnv ''Yes'') afterFailedRun = Some afterFailedRun
   \<and> runPendingAnalysis (replyEnv ''No'') (initialState [yesNoParent, yesChild] ''img'') \<noteq> None
   \<and> selectedImageId afterNoRun = Some ''img''
   \<and> isPending afterNoRun ''img'' (pid yesChild)
   \<and> parentSucceeded afterNoRun ''img'' yesChild
   \<and> (\<exists>st' r rest. runPendingAnalysis (replyEnv ''No'') afterNoRun = Some st'
         \<and> requests st' = requests afterNoRun @ r # rest)"
proof -
  have f: "runPendingAnalysis failingEnv (initialState [yesNoParent, yesChild] ''img'') \<noteq> None"
    "selectedImageId afterFailedRun = Some ''img''"
    "status (last (historyOf afterFailedRun ''img'' ''p'')) = error"
    "isPending afterFailedRun ''img'' (pid yesChild)"
    "\<not> parentSucceeded afterFailedRun ''img'' yesChild"
    by code_simp+
  have "list_all (\<lambda>p. \<not> isPending afterFailedRun ''img'' (pid p)
           \<or> truthy (parentId p) \<and> \<not> parentSucceeded afterFailedRun ''img'' p)
          (prompts afterFailedRun)"
    by code_simp
  then have fa: "\<forall>p \<in> set (prompts afterFailedRun). isPending afterFailedRun ''img'' (pid p) \<longrightarrow>
             truthy (parentId p) \<and> \<not> parentSucceeded afterFailedRun ''img'' p"
    by (auto simp: list_all_iff)
  have n: "runPendingAnalysis (replyEnv ''No'') (initialState [yesNoParent, yesChild] ''img'') \<noteq> None"
    "selectedImageId afterNoRun = Some ''img''"
    "isPending afterNoRun ''img'' (pid yesChild)"
    "parentSucceeded afterNoRun ''img'' yesChild"
    by code_simp+
  have ps: "prompts afterNoRun = [yesNoParent, yesChild]"
    by code_simp
  have na: "''img'' \<noteq> [] \<and> (\<forall>y. \<not> descendant (prompts afterNoRun) y y)
          \<and> (\<exists>p \<in> set (prompts afterNoRun). isPending afterNoRun ''img'' (pid p)
                \<and> (\<not> truthy (parentId p) \<or> parentSucceeded afterNoRun ''img'' p))"
    using n(3,4) by (auto simp: ps two_prompts_acyclic)
  from C8_second_run [OF f(2), of "replyEnv ''Yes''"] fa
  have a: "runPendingAnalysis (replyEnv ''Yes'') afterFailedRun = Some afterFailedRun"
    by blast
  from C8_second_run [OF n(2), of "replyEnv ''No''"] na
  have b: "\<exists>st' r rest. runPendingAnalysis (replyEnv ''No'') afterNoRun = Some st'
         \<and> requests st' = requests afterNoRun @ r # rest"
    by blast
  from f n a b show ?thesis by (intro conjI)
qed

text \<open>
  C8 as stated fails: the model answers \<open>No\<close>, so the first run leaves the child with
  condition \<open>yes\<close> pending; the second run, with no prompt added, requests the parent again.
\<close>

theorem C8_second_run_requests:
  "map_option requests
     (runPendingAnalysis (replyEnv ''No'') (initialState [yesNoParent, yesChild] ''img''))
     = Some [SingleReq yesNoParent ''data:img'']
   \<and> map_option requests
     (Option.bind (runPendingAnalysis (replyEnv ''No'') (initialState [yesNoParent, yesChild] ''img''))
        (runPendingAnalysis (replyEnv ''No'')))
     = Some [SingleReq yesNoParent ''data:img'', SingleReq yesNoParent ''data:img'']"
  by code_simp

text \<open>
  C9. In the fan-out of one child over the detections \<open>bboxes\<close>, let the request for
  detection \<open>i\<close> fail with message \<open>m\<close>. The child still ends with a single success entry
  holding one result per detection; the result for detection \<open>i\<close> is the text \<open>Error: m\<close>
  attached to that detection, and every result is what its own request gave.
\<close>

theorem C9_object_failure_kept:
  assumes "i < length bboxes"
    and "failureMessage (fetchJson E (length (requests st) + i)
           (ChildReq child (bboxes ! i) imageBase64)) = Some m"
  shows "\<exists>rs. historyOf (runBboxChild E imageId imageBase64 bboxes child st) imageId (pid child)
                = [\<lparr>promptId = pid child, status = success, data = ChildResults rs,
                     error_text = None\<rparr>]
              \<and> length rs = length bboxes
              \<and> rs ! i = \<lparr>parentBox = bboxes ! i, resultData = CStr (''Error: '' @ m)\<rparr>
              \<and> (\<forall>j < length bboxes.
                    rs ! j = fetchBboxChildAnalysis E (length (requests st) + j) child
                               (bboxes ! j) imageBase64)"
proof (intro exI conjI)
  let ?rs = "fanOut E (length (requests st)) child bboxes imageBase64"
  show "historyOf (runBboxChild E imageId imageBase64 bboxes child st) imageId (pid child)
          = [\<lparr>promptId = pid child, status = success, data = ChildResults ?rs, error_text = None\<rparr>]"
    by (simp add: runBboxChild_history childSuccess_def)
  show "length ?rs = length bboxes" by simp
  show "?rs ! i = \<lparr>parentBox = bboxes ! i, resultData = CStr (''Error: '' @ m)\<rparr>"
    using assms by (simp add: nth_fanOut fetchBboxChildAnalysis_failure)
  show "\<forall>j < length bboxes.
          ?rs ! j = fetchBboxChildAnalysis E (length (requests st) + j) child (bboxes ! j) imageBase64"
    by (simp add: nth_fanOut)
qed

theorem C9_object_failure_kept_witness:
  "(1::nat) < length [catBox, dogBox]
   \<and> failureMessage (fetchJson secondFailsEnv
        (length (requests (initialState [bboxParent, bboxKid] ''img'')) + 1)
        (ChildReq bboxKid ([catBox, dogBox] ! 1) ''data:img'')) = Some ''API failed: 500''
   \<and> (\<exists>rs. historyOf (runBboxChild secondFailsEnv ''img'' ''data:img'' [catBox, dogBox] bboxKid
               (initialState [bboxParent, bboxKid] ''img'')) ''img'' ''k''
             = [\<lparr>promptId = ''k'', status = success, data = ChildResults rs, error_text = None\<rparr>]
           \<and> length rs = 2
           \<and> rs ! 1 = \<lparr>parentBox = dogBox, resultData = CStr ''Error: API failed: 500''\<rparr>
           \<and> rs ! 0 = \<lparr>parentBox = catBox, resultData = CStr ''Yes''\<rparr>)"
proof -
  let ?st = "initialState [bboxParent, bboxKid] ''img''"
  have n: "length (requests ?st) = 0"
    by (simp add: initialState_def)
  have h: "(1::nat) < length [catBox, dogBox]"
    "failureMessage (fetchJson secondFailsEnv (length (requests ?st) + 1)
        (ChildReq bboxKid ([catBox, dogBox] ! 1) ''data:img'')) = Some ''API failed: 500''"
    by (simp_all add: n secondFailsEnv_def replyEnv_def failureMessage_def showNat_500)
  have first: "fetchBboxChildAnalysis secondFailsEnv 0 bboxKid catBox ''data:img''
                 = \<lparr>parentBox = catBox, resultData = CStr ''Yes''\<rparr>"
    by (simp add: fetchBboxChildAnalysis_def secondFailsEnv_def replyEnv_def stripThinking_Yes
          bboxKid_def mkPrompt_def)
  have k: "pid bboxKid = ''k''"
    by (simp add: bboxKid_def mkPrompt_def)
  from C9_object_failure_kept [OF h, of "''img''"] obtain rs where
    rs: "historyOf (runBboxChild secondFailsEnv ''img'' ''data:img'' [catBox, dogBox] bboxKid ?st)
           ''img'' (pid bboxKid)
         = [\<lparr>promptId = pid bboxKid, status = success, data = ChildResults rs, error_text = None\<rparr>]"
      "length rs = length [catBox, dogBox]"
      "rs ! 1 = \<lparr>parentBox = [catBox, dogBox] ! 1, resultData = CStr (''Error: '' @ ''API failed: 500'')\<rparr>"
      "\<forall>j < length [catBox, dogBox].
          rs ! j = fetchBboxChildAnalysis secondFailsEnv (length (requests ?st) + j) bboxKid
                     ([catBox, dogBox] ! j) ''data:img''"
    by blast
  from rs(4) have "rs ! 0 = fetchBboxChildAnalysis secondFailsEnv (length (requests ?st) + 0) bboxKid
                     ([catBox, dogBox] ! 0) ''data:img''"
    by simp
  then have z: "rs ! 0 = \<lparr>parentBox = catBox, resultData = CStr ''Yes''\<rparr>"
    by (simp add: n first)
  from rs(1,2,3) z h show ?thesis
    by (simp add: k)
qed

text \<open>
  C10. A Number or Score prompt whose answer arrives complete and holds no digit ends with
  a success entry whose data is NaN, appended to its history. And when a score prompt has
  succeeded with NaN, no child is to be run and the completion handler changes nothing,
  whatever the operators and thresholds of the children.
\<close>

theorem C10_not_a_number:
  "((ptype prompt = Number \<or> ptype prompt = Score)
     \<and> fetchJson E (length (requests st)) (SingleReq prompt (getImageBase64 E st imageId))
          = JBody False reply
     \<and> list_all (\<lambda>c. \<not> isDigit c) reply
     \<longrightarrow> snd (runSinglePrompt E prompt imageId st)
           = Some \<lparr>promptId = pid prompt, status = success, data = Num NaN, error_text = None\<rparr>
         \<and> historyOf (fst (runSinglePrompt E prompt imageId st)) imageId (pid prompt)
           = historyOf st imageId (pid prompt)
             @ [\<lparr>promptId = pid prompt, status = success, data = Num NaN, error_text = None\<rparr>])
   \<and> (ptype parent = Score \<and> status result = success \<and> data result = Num NaN
     \<longrightarrow> scoreChildrenToRun parent NaN imageId st = []
         \<and> handlePromptCompletion E parent result imageId st = st)"
proof (intro conjI impI)
  assume a: "(ptype prompt = Number \<or> ptype prompt = Score)
     \<and> fetchJson E (length (requests st)) (SingleReq prompt (getImageBase64 E st imageId))
          = JBody False reply
     \<and> list_all (\<lambda>c. \<not> isDigit c) reply"
  then have n: "coerceNumber E (stripThinking reply) = NaN"
    by (simp add: coerceNumber_no_digit list_all_iff)
  from a runSinglePrompt_number [of prompt E st imageId reply]
  show "snd (runSinglePrompt E prompt imageId st)
           = Some \<lparr>promptId = pid prompt, status = success, data = Num NaN, error_text = None\<rparr>"
    and "historyOf (fst (runSinglePrompt E prompt imageId st)) imageId (pid prompt)
           = historyOf st imageId (pid prompt)
             @ [\<lparr>promptId = pid prompt, status = success, data = Num NaN, error_text = None\<rparr>]"
    by (simp_all add: n)
next
  assume "ptype parent = Score \<and> status result = success \<and> data result = Num NaN"
  then show "handlePromptCompletion E parent result imageId st = st"
    by (simp add: handlePromptCompletion_Score scoreChildrenToRun_NaN runChildren_def)
qed (rule scoreChildrenToRun_NaN)

theorem C10_not_a_number_witness:
  "(ptype scoreParent = Number \<or> ptype scoreParent = Score)
   \<and> fetchJson (replyEnv ''unsure'')
        (length (requests (initialState [scoreParent, aboveChild, belowChild] ''img'')))
        (SingleReq scoreParent (getImageBase64 (replyEnv ''unsure'')
           (initialState [scoreParent, aboveChild, belowChild] ''img'') ''img''))
      = JBody False ''unsure''
   \<and> list_all (\<lambda>c. \<not> isDigit c) ''unsure''
   \<and> snd (runSinglePrompt (replyEnv ''unsure'') scoreParent ''img''
        (initialState [scoreParent, aboveChild, belowChild] ''img''))
      = Some \<lparr>promptId = ''s'', status = success, data = Num NaN, error_text = None\<rparr>
   \<and> ptype scoreParent = Score
   \<and> status (succeeded ''s'' (Num NaN)) = success
   \<and> data (succeeded ''s'' (Num NaN)) = Num NaN
   \<and> handlePromptCompletion (replyEnv ''unsure'') scoreParent (succeeded ''s'' (Num NaN)) ''img''
        (initialState [scoreParent, aboveChild, belowChild] ''img'')
      = initialState [scoreParent, aboveChild, belowChild] ''img''"
  using C10_not_a_number [of scoreParent "replyEnv ''unsure''"
      "initialState [scoreParent, aboveChild, belowChild] ''img''" "''img''" "''unsure''"
      scoreParent "succeeded ''s'' (Num NaN)"]
    no_digit_unsure
  by (simp add: scoreParent_def mkPrompt_def replyEnv_def succeeded_def)

end
